theory Spec2Isabelle
  imports Main
begin

section \<open>Tables of the inventory database\<close>

text \<open>
  The handlers of \<^verbatim>\<open>src/index.js\<close> read and write four tables through SQL
  statements: \<^verbatim>\<open>products\<close>, \<^verbatim>\<open>locations\<close>, \<^verbatim>\<open>inventory_counts\<close> (the drafts) and
  \<^verbatim>\<open>stock_levels\<close> (the stock ledger). A table is the list of its rows, in the order in
  which a scan without \<^verbatim>\<open>ORDER BY\<close> returns them; an \<^verbatim>\<open>INSERT\<close> appends a row, an
  \<^verbatim>\<open>UPDATE\<close> rewrites rows where they stand. Columns keep their SQL names, prefixed
  where two tables share a name. Request fields are taken as present and of their
  column's type: identifiers are naturals, quantities integers, names strings.
\<close>

datatype status = DRAFT | COMMITTED

record product =
  product_id :: nat
  name :: string
  sku :: string

record inventory_count =
  ic_id :: nat
  ic_product_id :: nat
  ic_location :: string
  quantity :: int
  user_id :: nat
  ic_status :: status
  scanned_at :: nat

record stock_level =
  sl_product_id :: nat
  sl_location :: string
  on_hand :: int
  available :: int

record db =
  products :: "product list"
  locations :: "string list"
  inventory_counts :: "inventory_count list"
  stock_levels :: "stock_level list"
  next_id :: nat

section \<open>Storage failures\<close>

text \<open>
  Every \<^verbatim>\<open>pool.query\<close> and \<^verbatim>\<open>client.query\<close> may throw. A handler is run against a
  fault: \<open>None\<close> when no statement throws, \<open>Some k\<close> when the statement issued after
  \<open>k\<close> successful ones throws. A statement that throws has no effect of its own.
  The declarations of the tables are not in the source: a statement that a constraint
  or the range of a column rejects is one that throws, and quantities are unbounded
  integers.
\<close>

type_synonym fault = "nat option"

definition throws :: "fault \<Rightarrow> bool" where
  "throws f = (f = Some 0)"

definition tick :: "fault \<Rightarrow> fault" where
  "tick f = (case f of Some (Suc k) \<Rightarrow> Some k | _ \<Rightarrow> f)"

section \<open>The SQL statements of the handlers\<close>

definition select_product :: "string \<Rightarrow> db \<Rightarrow> product list" where
  \<comment> \<open>\<^verbatim>\<open>SELECT product_id, name, sku FROM products WHERE sku = $1\<close>\<close>
  "select_product barcode d = filter (\<lambda>p. sku p = barcode) (products d)"

definition select_draft :: "nat \<Rightarrow> string \<Rightarrow> db \<Rightarrow> inventory_count list" where
  \<comment> \<open>\<^verbatim>\<open>SELECT id FROM inventory_counts WHERE product_id = $1 AND location = $2 AND status = 'DRAFT'\<close>\<close>
  "select_draft pid location d =
     filter (\<lambda>r. ic_product_id r = pid \<and> ic_location r = location \<and> ic_status r = DRAFT)
       (inventory_counts d)"

definition increment_draft :: "nat \<Rightarrow> db \<Rightarrow> db" where
  \<comment> \<open>\<^verbatim>\<open>UPDATE inventory_counts SET quantity = quantity + 1 WHERE id = $1\<close>\<close>
  "increment_draft i d =
     d\<lparr>inventory_counts :=
         map (\<lambda>r. if ic_id r = i then r\<lparr>quantity := quantity r + 1\<rparr> else r) (inventory_counts d)\<rparr>"

text \<open>
  Modelled from the spec: the declaration of table \<^verbatim>\<open>inventory_counts\<close> is not in the
  source, and the \<^verbatim>\<open>INSERT\<close> of the scan handler names neither \<^verbatim>\<open>id\<close> nor
  \<^verbatim>\<open>scanned_at\<close>. The spec has \<open>id\<close> "assigned on creation" and \<open>scanned_at\<close> the
  "timestamp of creation": the identifier is drawn from a sequence kept with the
  database, the timestamp is the clock reading \<open>now\<close> handed to the handler.
\<close>

definition insert_draft :: "nat \<Rightarrow> string \<Rightarrow> nat \<Rightarrow> nat \<Rightarrow> db \<Rightarrow> db" where
  \<comment> \<open>\<^verbatim>\<open>INSERT INTO inventory_counts (product_id, location, quantity, user_id, status) VALUES ($1, $2, 1, $3, 'DRAFT')\<close>\<close>
  "insert_draft pid location uid now d =
     d\<lparr>inventory_counts := inventory_counts d @
          [\<lparr>ic_id = next_id d, ic_product_id = pid, ic_location = location, quantity = 1,
            user_id = uid, ic_status = DRAFT, scanned_at = now\<rparr>],
       next_id := Suc (next_id d)\<rparr>"

definition delete_draft :: "nat \<Rightarrow> db \<Rightarrow> db" where
  \<comment> \<open>\<^verbatim>\<open>DELETE FROM inventory_counts WHERE id = $1\<close>\<close>
  "delete_draft i d = d\<lparr>inventory_counts := filter (\<lambda>r. ic_id r \<noteq> i) (inventory_counts d)\<rparr>"

definition update_draft :: "int \<Rightarrow> nat \<Rightarrow> db \<Rightarrow> db" where
  \<comment> \<open>\<^verbatim>\<open>UPDATE inventory_counts SET quantity = $1 WHERE id = $2\<close>\<close>
  "update_draft q i d =
     d\<lparr>inventory_counts :=
         map (\<lambda>r. if ic_id r = i then r\<lparr>quantity := q\<rparr> else r) (inventory_counts d)\<rparr>"

definition select_drafts :: "string \<Rightarrow> db \<Rightarrow> (nat \<times> int) list" where
  \<comment> \<open>\<^verbatim>\<open>SELECT product_id, quantity FROM inventory_counts WHERE location = $1 AND status = 'DRAFT'\<close>\<close>
  "select_drafts location d =
     map (\<lambda>r. (ic_product_id r, quantity r))
       (filter (\<lambda>r. ic_location r = location \<and> ic_status r = DRAFT) (inventory_counts d))"

definition update_stock :: "int \<Rightarrow> nat \<Rightarrow> string \<Rightarrow> db \<Rightarrow> nat \<times> db" where
  \<comment> \<open>\<^verbatim>\<open>UPDATE stock_levels SET on_hand = $1, available = $1 WHERE product_id = $2 AND location = $3\<close>,
      with its \<^verbatim>\<open>rowCount\<close>\<close>
  "update_stock q pid location d =
     (length (filter (\<lambda>s. sl_product_id s = pid \<and> sl_location s = location) (stock_levels d)),
      d\<lparr>stock_levels :=
          map (\<lambda>s. if sl_product_id s = pid \<and> sl_location s = location
                   then s\<lparr>on_hand := q, available := q\<rparr> else s) (stock_levels d)\<rparr>)"

definition insert_stock :: "nat \<Rightarrow> string \<Rightarrow> int \<Rightarrow> db \<Rightarrow> db" where
  \<comment> \<open>\<^verbatim>\<open>INSERT INTO stock_levels (product_id, location, on_hand, available) VALUES ($1, $2, $3, $3)\<close>\<close>
  "insert_stock pid location q d =
     d\<lparr>stock_levels := stock_levels d @
          [\<lparr>sl_product_id = pid, sl_location = location, on_hand = q, available = q\<rparr>]\<rparr>"

definition delete_drafts :: "string \<Rightarrow> db \<Rightarrow> db" where
  \<comment> \<open>\<^verbatim>\<open>DELETE FROM inventory_counts WHERE location = $1 AND status = 'DRAFT'\<close>\<close>
  "delete_drafts location d =
     d\<lparr>inventory_counts :=
         filter (\<lambda>r. \<not> (ic_location r = location \<and> ic_status r = DRAFT)) (inventory_counts d)\<rparr>"

definition select_review :: "string \<Rightarrow> db \<Rightarrow> (nat \<times> int \<times> string \<times> string) list" where
  \<comment> \<open>\<^verbatim>\<open>SELECT ic.id, ic.quantity, p.name, p.sku FROM inventory_counts ic JOIN products p
      ON ic.product_id = p.product_id WHERE ic.location = $1 AND ic.status = 'DRAFT'
      ORDER BY ic.scanned_at DESC\<close>; rows of equal \<^verbatim>\<open>scanned_at\<close> come in an order SQL leaves open\<close>
  "select_review location d =
     map (\<lambda>(r, p). (ic_id r, quantity r, name p, sku p))
       (rev (sort_key (\<lambda>(r, p). scanned_at r)
         (filter (\<lambda>(r, p). ic_location r = location \<and> ic_status r = DRAFT)
           (concat (map (\<lambda>r. map (\<lambda>p. (r, p))
                                (filter (\<lambda>p. ic_product_id r = product_id p) (products d)))
                        (inventory_counts d))))))"

section \<open>Handlers on the connection pool\<close>

datatype scan_response = ScanOk product | ScanNotFound | ScanFailed

definition scan :: "fault \<Rightarrow> string \<Rightarrow> string \<Rightarrow> nat \<Rightarrow> nat \<Rightarrow> db \<Rightarrow> scan_response \<times> db" where
  \<comment> \<open>\<^verbatim>\<open>POST /inventory/scan\<close>: each statement commits on its own\<close>
  "scan f barcode location uid now d =
     (if throws f then (ScanFailed, d)
      else case select_product barcode d of
        [] \<Rightarrow> (ScanNotFound, d)
      | product # _ \<Rightarrow>
          if throws (tick f) then (ScanFailed, d)
          else (case select_draft (product_id product) location d of
            r # _ \<Rightarrow>
              if throws (tick (tick f)) then (ScanFailed, d)
              else (ScanOk product, increment_draft (ic_id r) d)
          | [] \<Rightarrow>
              if throws (tick (tick f)) then (ScanFailed, d)
              else (ScanOk product, insert_draft (product_id product) location uid now d)))"

datatype review_response = ReviewOk "(nat \<times> int \<times> string \<times> string) list" | ReviewFailed

definition review :: "fault \<Rightarrow> string \<Rightarrow> db \<Rightarrow> review_response" where
  \<comment> \<open>\<^verbatim>\<open>GET /inventory/review\<close>\<close>
  "review f location d = (if throws f then ReviewFailed else ReviewOk (select_review location d))"

datatype update_response = UpdateOk | UpdateFailed

definition update :: "fault \<Rightarrow> nat \<Rightarrow> int \<Rightarrow> db \<Rightarrow> update_response \<times> db" where
  \<comment> \<open>\<^verbatim>\<open>POST /inventory/update\<close>\<close>
  "update f i q d =
     (if q \<le> 0
      then (if throws f then (UpdateFailed, d) else (UpdateOk, delete_draft i d))
      else (if throws f then (UpdateFailed, d) else (UpdateOk, update_draft q i d)))"

section \<open>The commit handler and its transaction\<close>

text \<open>
  The commit handler takes one client from the pool and brackets its statements with
  \<^verbatim>\<open>BEGIN\<close> and \<^verbatim>\<open>COMMIT\<close>. A client holds the durable database and, inside a
  transaction, the working copy its statements read and write; \<^verbatim>\<open>COMMIT\<close> makes the
  working copy durable and \<^verbatim>\<open>ROLLBACK\<close> drops it. The pool is taken to hand out a
  client, and the \<^verbatim>\<open>ROLLBACK\<close> of the \<^verbatim>\<open>catch\<close> block not to throw.
\<close>

record client =
  durable :: db
  tx :: "db option"

definition connect :: "db \<Rightarrow> client" where
  "connect d = \<lparr>durable = d, tx = None\<rparr>"

definition current :: "client \<Rightarrow> db" where
  "current c = (case tx c of Some w \<Rightarrow> w | None \<Rightarrow> durable c)"

definition store :: "db \<Rightarrow> client \<Rightarrow> client" where
  "store w c = (case tx c of Some _ \<Rightarrow> c\<lparr>tx := Some w\<rparr> | None \<Rightarrow> c\<lparr>durable := w\<rparr>)"

definition sql_begin :: "client \<Rightarrow> client" where
  "sql_begin c = (case tx c of None \<Rightarrow> c\<lparr>tx := Some (durable c)\<rparr> | Some _ \<Rightarrow> c)"

definition sql_commit :: "client \<Rightarrow> client" where
  "sql_commit c = \<lparr>durable = current c, tx = None\<rparr>"

definition sql_rollback :: "client \<Rightarrow> client" where
  "sql_rollback c = c\<lparr>tx := None\<rparr>"

text \<open>
  The \<^verbatim>\<open>for\<close> loop over \<^verbatim>\<open>drafts.rows\<close>. \<open>Inl c\<close> is a statement that threw with the
  client in state \<open>c\<close>; \<open>Inr (f, c)\<close> is the loop run to its end.
\<close>

fun upsert_loop :: "string \<Rightarrow> (nat \<times> int) list \<Rightarrow> fault \<Rightarrow> client \<Rightarrow> client + (fault \<times> client)" where
  "upsert_loop location [] f c = Inr (f, c)"
| "upsert_loop location ((pid, q) # items) f c =
     (if throws f then Inl c
      else let (rowCount, w) = update_stock q pid location (current c);
               c1 = store w c
           in if rowCount = 0
              then (if throws (tick f) then Inl c1
                    else upsert_loop location items (tick (tick f))
                           (store (insert_stock pid location q (current c1)) c1))
              else upsert_loop location items (tick f) c1)"

definition commit_try :: "string \<Rightarrow> fault \<Rightarrow> client \<Rightarrow> client + (nat \<times> client)" where
  \<comment> \<open>the \<^verbatim>\<open>try\<close> block: \<^verbatim>\<open>BEGIN\<close>, the snapshot of the drafts, the loop, the
      \<^verbatim>\<open>DELETE\<close>, \<^verbatim>\<open>COMMIT\<close>, and the count of the response\<close>
  "commit_try location f c =
     (if throws f then Inl c
      else let c1 = sql_begin c in
        if throws (tick f) then Inl c1
        else let drafts = select_drafts location (current c1) in
          case upsert_loop location drafts (tick (tick f)) c1 of
            Inl c2 \<Rightarrow> Inl c2
          | Inr (f3, c2) \<Rightarrow>
              if throws f3 then Inl c2
              else let c3 = store (delete_drafts location (current c2)) c2 in
                if throws (tick f3) then Inl c3
                else Inr (length drafts, sql_commit c3))"

datatype commit_response = CommitOk nat | CommitFailed

definition commit_handler :: "fault \<Rightarrow> string \<Rightarrow> client \<Rightarrow> commit_response \<times> client" where
  \<comment> \<open>\<^verbatim>\<open>POST /inventory/commit\<close> on the client it took from the pool: the \<^verbatim>\<open>catch\<close>
      block rolls back and answers 500; the result holds the client as it is released\<close>
  "commit_handler f location c0 =
     (case commit_try location f c0 of
        Inr (n, c) \<Rightarrow> (CommitOk n, c)
      | Inl c \<Rightarrow> (CommitFailed, sql_rollback c))"

definition commit :: "fault \<Rightarrow> string \<Rightarrow> db \<Rightarrow> commit_response \<times> db" where
  \<comment> \<open>the answer of the handler and the durable database it leaves\<close>
  "commit f location d =
     (case commit_handler f location (connect d) of (res, c) \<Rightarrow> (res, durable c))"

section \<open>Sequences of operations\<close>

datatype operation =
    Scan fault string string nat nat
  | Update fault nat int
  | Commit fault string

fun step :: "operation \<Rightarrow> db \<Rightarrow> db" where
  "step (Scan f barcode location uid now) d = snd (scan f barcode location uid now d)"
| "step (Update f i q) d = snd (update f i q d)"
| "step (Commit f location) d = snd (commit f location d)"

definition run :: "operation list \<Rightarrow> db \<Rightarrow> db" where
  "run ops d = fold step ops d"

section \<open>The scan handler in two steps\<close>

text \<open>
  What the two \<^verbatim>\<open>SELECT\<close>s of the scan handler decide, and the write that follows.
\<close>

datatype scan_plan = Merge nat | Create nat

definition scan_check :: "string \<Rightarrow> string \<Rightarrow> db \<Rightarrow> (product \<times> scan_plan) option" where
  "scan_check barcode location d =
     (case select_product barcode d of
        [] \<Rightarrow> None
      | product # _ \<Rightarrow>
          Some (product,
                case select_draft (product_id product) location d of
                  r # _ \<Rightarrow> Merge (ic_id r)
                | [] \<Rightarrow> Create (product_id product)))"

fun scan_write :: "scan_plan \<Rightarrow> string \<Rightarrow> nat \<Rightarrow> nat \<Rightarrow> db \<Rightarrow> db" where
  "scan_write (Merge i) location uid now d = increment_draft i d"
| "scan_write (Create pid) location uid now d = insert_draft pid location uid now d"

definition scan_answer :: "(product \<times> scan_plan) option \<Rightarrow> scan_response" where
  "scan_answer c = (case c of None \<Rightarrow> ScanNotFound | Some (product, _) \<Rightarrow> ScanOk product)"

definition scan_apply :: "(product \<times> scan_plan) option \<Rightarrow> string \<Rightarrow> nat \<Rightarrow> nat \<Rightarrow> db \<Rightarrow> db" where
  "scan_apply c location uid now d =
     (case c of None \<Rightarrow> d | Some (_, plan) \<Rightarrow> scan_write plan location uid now d)"

text \<open>
  The handler awaits each statement, and each \<^verbatim>\<open>pool.query\<close> commits on its own, so
  the statements of two requests can interleave. Two scan requests of which both run
  their \<^verbatim>\<open>SELECT\<close>s before either writes: both decide on the database as it was, then
  the first writes and the second writes.
\<close>

definition scan_interleaved ::
  "string \<Rightarrow> string \<Rightarrow> nat \<Rightarrow> nat \<Rightarrow> string \<Rightarrow> string \<Rightarrow> nat \<Rightarrow> nat \<Rightarrow> db
     \<Rightarrow> (scan_response \<times> scan_response) \<times> db" where
  "scan_interleaved barcode1 location1 uid1 now1 barcode2 location2 uid2 now2 d =
     (let c1 = scan_check barcode1 location1 d;
          c2 = scan_check barcode2 location2 d
      in ((scan_answer c1, scan_answer c2),
          scan_apply c2 location2 uid2 now2 (scan_apply c1 location1 uid1 now1 d)))"

section \<open>Notions used to state the properties\<close>

text \<open>
  The body of the commit loop as one function of the working copy: the \<^verbatim>\<open>UPDATE\<close> of
  \<^verbatim>\<open>stock_levels\<close> and, when its \<^verbatim>\<open>rowCount\<close> is 0, the \<^verbatim>\<open>INSERT\<close>.
\<close>

definition upsert :: "nat \<Rightarrow> string \<Rightarrow> int \<Rightarrow> db \<Rightarrow> db" where
  "upsert pid location q d =
     (let (rowCount, w) = update_stock q pid location d
      in if rowCount = 0 then insert_stock pid location q w else w)"

definition upsert_all :: "string \<Rightarrow> (nat \<times> int) list \<Rightarrow> db \<Rightarrow> db" where
  "upsert_all location items d = fold (\<lambda>(pid, q). upsert pid location q) items d"

text \<open>What a commit in which no statement throws leaves behind.\<close>

definition promote :: "string \<Rightarrow> db \<Rightarrow> db" where
  "promote location d = delete_drafts location (upsert_all location (select_drafts location d) d)"

text \<open>
  The number of statements a commit issues when none throws: \<^verbatim>\<open>BEGIN\<close>, the
  \<^verbatim>\<open>SELECT\<close>, one \<^verbatim>\<open>UPDATE\<close> per draft and an \<^verbatim>\<open>INSERT\<close> after each
  \<^verbatim>\<open>UPDATE\<close> that matched no row, the \<^verbatim>\<open>DELETE\<close>, and \<^verbatim>\<open>COMMIT\<close>.
\<close>

fun loop_statements :: "string \<Rightarrow> (nat \<times> int) list \<Rightarrow> db \<Rightarrow> nat" where
  "loop_statements location [] d = 0"
| "loop_statements location ((pid, q) # items) d =
     (if fst (update_stock q pid location d) = 0 then 2 else 1)
       + loop_statements location items (upsert pid location q d)"

definition statements :: "string \<Rightarrow> db \<Rightarrow> nat" where
  "statements location d = 4 + loop_statements location (select_drafts location d) d"

text \<open>At most one \<^verbatim>\<open>DRAFT\<close> row per product and location.\<close>

definition draft_unique :: "db \<Rightarrow> bool" where
  "draft_unique d =
     distinct (map (\<lambda>r. (ic_product_id r, ic_location r))
                (filter (\<lambda>r. ic_status r = DRAFT) (inventory_counts d)))"

text \<open>At most one stock row per product and location.\<close>

definition stock_unique :: "db \<Rightarrow> bool" where
  "stock_unique d = distinct (map (\<lambda>s. (sl_product_id s, sl_location s)) (stock_levels d))"

definition stock_for :: "nat \<Rightarrow> string \<Rightarrow> db \<Rightarrow> stock_level list" where
  "stock_for pid location d =
     filter (\<lambda>s. sl_product_id s = pid \<and> sl_location s = location) (stock_levels d)"

definition counted :: "int \<Rightarrow> stock_level \<Rightarrow> stock_level" where
  "counted q s = s\<lparr>on_hand := q, available := q\<rparr>"

text \<open>
  Every stock row of \<open>d'\<close> is a row \<open>d\<close> already had or has \<open>on_hand\<close> equal to
  \<open>available\<close>.
\<close>

definition written :: "db \<Rightarrow> db \<Rightarrow> bool" where
  "written d d' = (\<forall>s\<in>set (stock_levels d'). s \<in> set (stock_levels d) \<or> on_hand s = available s)"

subsection \<open>Example databases\<close>

definition empty_db :: db where
  "empty_db = \<lparr>products = [], locations = [], inventory_counts = [], stock_levels = [], next_id = 0\<rparr>"

text \<open>
  Two products with a draft each at the dock; the first already has stock 10 there, the
  second has no stock row.
\<close>

definition dock_db :: db where
  "dock_db =
     \<lparr>products = [\<lparr>product_id = 1, name = ''Widget'', sku = ''A1''\<rparr>,
                  \<lparr>product_id = 2, name = ''Gadget'', sku = ''B2''\<rparr>],
      locations = [''Dock''],
      inventory_counts =
        [\<lparr>ic_id = 1, ic_product_id = 1, ic_location = ''Dock'', quantity = 5,
          user_id = 9, ic_status = DRAFT, scanned_at = 100\<rparr>,
         \<lparr>ic_id = 2, ic_product_id = 2, ic_location = ''Dock'', quantity = 3,
          user_id = 9, ic_status = DRAFT, scanned_at = 101\<rparr>],
      stock_levels = [\<lparr>sl_product_id = 1, sl_location = ''Dock'', on_hand = 10, available = 10\<rparr>],
      next_id = 3\<rparr>"

section \<open>Faults, and the update handler\<close>

lemma throws_None [simp]: "\<not> throws None"
  by (simp add: throws_def)

lemma tick_None [simp]: "tick None = None"
  by (simp add: tick_def)

lemma map_none_id: "\<forall>x\<in>set xs. \<not> P x \<Longrightarrow> map (\<lambda>x. if P x then g x else x) xs = xs"
  by (induction xs) auto

lemma delete_draft_absent: "\<forall>r\<in>set (inventory_counts d). ic_id r \<noteq> i \<Longrightarrow> delete_draft i d = d"
  by (simp add: delete_draft_def)

lemma update_draft_absent: "\<forall>r\<in>set (inventory_counts d). ic_id r \<noteq> i \<Longrightarrow> update_draft q i d = d"
  by (simp add: update_draft_def map_none_id)

lemma select_review_ids:
  "row \<in> set (select_review L d) \<Longrightarrow>
   \<exists>r\<in>set (inventory_counts d). ic_id r = fst row \<and> ic_location r = L \<and> ic_status r = DRAFT"
  by (auto simp: select_review_def)

section \<open>The commit transaction\<close>

lemma upsert_all_Nil [simp]: "upsert_all L [] d = d"
  by (simp add: upsert_all_def)

lemma upsert_all_Cons [simp]: "upsert_all L ((pid, q) # items) d = upsert_all L items (upsert pid L q d)"
  by (simp add: upsert_all_def)

lemma current_store [simp]: "tx c = Some w \<Longrightarrow> current (store w' c) = w'"
  by (simp add: current_def store_def)

lemma tx_store [simp]: "tx c = Some w \<Longrightarrow> tx (store w' c) = Some w'"
  by (simp add: store_def)

lemma durable_store [simp]: "tx c = Some w \<Longrightarrow> durable (store w' c) = durable c"
  by (simp add: store_def)

lemma current_tx [simp]: "tx c = Some w \<Longrightarrow> current c = w"
  by (simp add: current_def)

lemma upsert_loop_durable:
  "tx c = Some w \<Longrightarrow>
   (case upsert_loop L items f c of Inl c' \<Rightarrow> durable c' = durable c \<and> tx c' \<noteq> None
    | Inr (f', c') \<Rightarrow> durable c' = durable c \<and> tx c' \<noteq> None)"
proof (induction items arbitrary: f c w)
  case Nil
  then show ?case by simp
next
  case (Cons item items)
  obtain pid q where item: "item = (pid, q)" by (cases item)
  obtain rc w1 where us: "update_stock q pid L w = (rc, w1)" by (cases "update_stock q pid L w")
  let ?c1 = "store w1 c"
  have c1: "tx ?c1 = Some w1" "durable ?c1 = durable c" using Cons.prems by simp_all
  let ?c2 = "store (insert_stock pid L q w1) ?c1"
  have c2: "tx ?c2 = Some (insert_stock pid L q w1)" "durable ?c2 = durable c" using c1 by simp_all
  show ?case
    using Cons.IH [OF c1(1), of "tick f"] Cons.IH [OF c2(1), of "tick (tick f)"] Cons.prems c1 c2 us
    by (simp add: item Let_def split: sum.splits prod.splits)
qed

lemma commit_try_durable:
  "commit_try L f (connect d) = Inl c \<Longrightarrow> durable c = d"
proof -
  let ?c1 = "sql_begin (connect d)"
  have c1: "tx ?c1 = Some d" "durable ?c1 = d" by (simp_all add: sql_begin_def connect_def)
  assume a: "commit_try L f (connect d) = Inl c"
  show ?thesis
  proof (cases "upsert_loop L (select_drafts L d) (tick (tick f)) ?c1")
    case (Inl c2)
    with upsert_loop_durable [OF c1(1), of L "select_drafts L d" "tick (tick f)"] c1
    have "durable c2 = d" by simp
    moreover have "durable (connect d) = d" by (simp add: connect_def)
    ultimately show ?thesis using a c1 Inl
      by (simp add: commit_try_def Let_def split: if_splits)
  next
    case (Inr p)
    obtain f3 c2 where p: "p = (f3, c2)" by (cases p)
    from upsert_loop_durable [OF c1(1), of L "select_drafts L d" "tick (tick f)"] Inr p
    have c2: "durable c2 = d" "tx c2 \<noteq> None" using c1 by simp_all
    then obtain w2 where w2: "tx c2 = Some w2" by auto
    moreover have "durable (connect d) = d" by (simp add: connect_def)
    moreover have "durable (store (delete_drafts L (current c2)) c2) = d"
      using c2 w2 by simp
    ultimately show ?thesis using a Inr p c1 c2
      by (auto simp: commit_try_def Let_def split: if_splits)
  qed
qed

lemma commit_unfold:
  "commit f L d =
     (case commit_try L f (connect d) of
        Inr (n, c) \<Rightarrow> (CommitOk n, durable c)
      | Inl c \<Rightarrow> (CommitFailed, durable (sql_rollback c)))"
  by (simp add: commit_def commit_handler_def split: sum.splits)

lemma commit_try_rolled_back: "commit_try L f (connect d) = Inl c \<Longrightarrow> sql_rollback c = connect d"
  using commit_try_durable [of L f d c] by (cases c) (simp add: sql_rollback_def connect_def)

lemma commit_failed_state: "fst (commit f L d) = CommitFailed \<Longrightarrow> snd (commit f L d) = d"
  by (auto simp: commit_unfold sql_rollback_def split: sum.splits dest: commit_try_durable)

lemma throws_commit_failed: "throws f \<Longrightarrow> commit f L d = (CommitFailed, d)"
  by (simp add: commit_unfold commit_try_def sql_rollback_def connect_def)

lemma upsert_loop_success:
  "tx c = Some w \<Longrightarrow> upsert_loop L items f c = Inr (f', c') \<Longrightarrow>
   c' = c\<lparr>tx := Some (upsert_all L items w)\<rparr>"
proof (induction items arbitrary: f c w)
  case Nil
  then show ?case by simp
next
  case (Cons item items)
  obtain pid q where item: "item = (pid, q)" by (cases item)
  obtain rc w1 where us: "update_stock q pid L w = (rc, w1)" by (cases "update_stock q pid L w")
  let ?c1 = "store w1 c"
  have c1: "tx ?c1 = Some w1" "?c1 = c\<lparr>tx := Some w1\<rparr>" using Cons.prems by (simp_all add: store_def)
  let ?c2 = "store (insert_stock pid L q w1) ?c1"
  have c2: "tx ?c2 = Some (insert_stock pid L q w1)" "?c2 = c\<lparr>tx := Some (insert_stock pid L q w1)\<rparr>"
    using Cons.prems by (simp_all add: store_def)
  show ?case
  proof (cases "rc = 0")
    case True
    with Cons.prems us have "upsert_loop L items (tick (tick f)) ?c2 = Inr (f', c')"
      by (simp add: item Let_def split: if_splits)
    from Cons.IH [OF c2(1) this] show ?thesis
      using True us by (simp add: item upsert_def c2(2))
  next
    case False
    with Cons.prems us have "upsert_loop L items (tick f) ?c1 = Inr (f', c')"
      by (simp add: item Let_def split: if_splits)
    from Cons.IH [OF c1(1) this] show ?thesis
      using False us by (simp add: item upsert_def c1(2))
  qed
qed

lemma upsert_loop_None:
  "tx c = Some w \<Longrightarrow> upsert_loop L items None c = Inr (None, c\<lparr>tx := Some (upsert_all L items w)\<rparr>)"
proof (induction items arbitrary: c w)
  case Nil
  then show ?case by simp
next
  case (Cons item items)
  obtain pid q where item: "item = (pid, q)" by (cases item)
  obtain rc w1 where us: "update_stock q pid L w = (rc, w1)" by (cases "update_stock q pid L w")
  let ?c1 = "store w1 c"
  have c1: "tx ?c1 = Some w1" "?c1 = c\<lparr>tx := Some w1\<rparr>" using Cons.prems by (simp_all add: store_def)
  let ?c2 = "store (insert_stock pid L q w1) ?c1"
  have c2: "tx ?c2 = Some (insert_stock pid L q w1)" "?c2 = c\<lparr>tx := Some (insert_stock pid L q w1)\<rparr>"
    using Cons.prems by (simp_all add: store_def)
  show ?case
    using Cons.IH [OF c1(1)] Cons.IH [OF c2(1)] Cons.prems us
    by (simp add: item upsert_def c1(2) c2(2) Let_def)
qed

lemma commit_success:
  assumes "commit f L d = (CommitOk n, d')"
  shows "n = length (select_drafts L d) \<and> d' = promote L d"
proof -
  let ?c1 = "sql_begin (connect d)"
  have c1: "tx ?c1 = Some d" "?c1 = \<lparr>durable = d, tx = Some d\<rparr>" by (simp_all add: sql_begin_def connect_def)
  from assms obtain c where ct: "commit_try L f (connect d) = Inr (n, c)" and d': "d' = durable c"
    by (auto simp: commit_unfold split: sum.splits)
  then obtain f3 c2 where ul: "upsert_loop L (select_drafts L d) (tick (tick f)) ?c1 = Inr (f3, c2)"
    using c1(1) by (auto simp: commit_try_def Let_def split: if_splits sum.splits)
  from upsert_loop_success [OF c1(1) ul]
  have c2: "c2 = \<lparr>durable = d, tx = Some (upsert_all L (select_drafts L d) d)\<rparr>"
    by (simp add: c1(2))
  from ct ul c1(1) show ?thesis
    by (auto simp: commit_try_def Let_def d' c2 promote_def sql_commit_def store_def current_def
        split: if_splits)
qed

lemma commit_None: "commit None L d = (CommitOk (length (select_drafts L d)), promote L d)"
proof -
  let ?c1 = "sql_begin (connect d)"
  have c1: "tx ?c1 = Some d" "?c1 = \<lparr>durable = d, tx = Some d\<rparr>" by (simp_all add: sql_begin_def connect_def)
  show ?thesis
    using upsert_loop_None [OF c1(1), of L "select_drafts L d"] c1(1)
    by (simp add: commit_unfold commit_try_def Let_def c1(2) promote_def sql_commit_def store_def current_def)
qed

lemma commit_try_success:
  assumes "commit_try L f (connect d) = Inr (n, c)"
  shows "n = length (select_drafts L d) \<and> c = connect (promote L d)"
proof -
  let ?c1 = "sql_begin (connect d)"
  have c1: "tx ?c1 = Some d" "?c1 = \<lparr>durable = d, tx = Some d\<rparr>" by (simp_all add: sql_begin_def connect_def)
  from assms obtain f3 c2 where ul: "upsert_loop L (select_drafts L d) (tick (tick f)) ?c1 = Inr (f3, c2)"
    using c1(1) by (auto simp: commit_try_def Let_def split: if_splits sum.splits)
  from upsert_loop_success [OF c1(1) ul]
  have c2: "c2 = \<lparr>durable = d, tx = Some (upsert_all L (select_drafts L d) d)\<rparr>"
    by (simp add: c1(2))
  from assms ul c1(1) show ?thesis
    by (auto simp: commit_try_def Let_def c2 promote_def sql_commit_def store_def current_def connect_def
        split: if_splits)
qed

section \<open>Which commits fail\<close>

lemma throws_Some [simp]: "throws (Some k) = (k = 0)"
  by (simp add: throws_def)

lemma tick_Some [simp]: "tick (Some k) = Some (k - 1)"
  by (cases k) (simp_all add: tick_def)

lemma upsert_loop_thrown:
  "tx c = Some w \<Longrightarrow> k < loop_statements L items w \<Longrightarrow> \<exists>c'. upsert_loop L items (Some k) c = Inl c'"
proof (induction items arbitrary: k c w)
  case Nil
  then show ?case by simp
next
  case (Cons item items)
  obtain pid q where item: "item = (pid, q)" by (cases item)
  obtain rc w1 where us: "update_stock q pid L w = (rc, w1)" by (cases "update_stock q pid L w")
  let ?c1 = "store w1 c"
  have c1: "tx ?c1 = Some w1" using Cons.prems by simp
  let ?c2 = "store (insert_stock pid L q w1) ?c1"
  have c2: "tx ?c2 = Some (insert_stock pid L q w1)" using c1 by simp
  show ?case
  proof (cases "rc = 0")
    case True
    then have up: "upsert pid L q w = insert_stock pid L q w1" using us by (simp add: upsert_def)
    show ?thesis
    proof (cases "k < 2")
      case True
      with \<open>rc = 0\<close> us Cons.prems(1) show ?thesis
        by (cases k) (simp_all add: item Let_def)
    next
      case False
      with Cons.prems(2) \<open>rc = 0\<close> us up have "k - Suc (Suc 0) < loop_statements L items (insert_stock pid L q w1)"
        by (simp add: item)
      from Cons.IH [OF c2 this] False \<open>rc = 0\<close> us Cons.prems(1) c1 show ?thesis
        by (simp add: item Let_def)
    qed
  next
    case False
    then have up: "upsert pid L q w = w1" using us by (simp add: upsert_def)
    show ?thesis
    proof (cases "k = 0")
      case True
      then show ?thesis by (simp add: item)
    next
      case k: False
      with Cons.prems(2) False us up have "k - 1 < loop_statements L items w1"
        by (simp add: item)
      from Cons.IH [OF c1 this] k False us Cons.prems(1) show ?thesis
        by (simp add: item Let_def)
    qed
  qed
qed

lemma upsert_loop_returned:
  "tx c = Some w \<Longrightarrow> loop_statements L items w \<le> k \<Longrightarrow>
   upsert_loop L items (Some k) c =
     Inr (Some (k - loop_statements L items w), c\<lparr>tx := Some (upsert_all L items w)\<rparr>)"
proof (induction items arbitrary: k c w)
  case Nil
  then show ?case by simp
next
  case (Cons item items)
  obtain pid q where item: "item = (pid, q)" by (cases item)
  obtain rc w1 where us: "update_stock q pid L w = (rc, w1)" by (cases "update_stock q pid L w")
  let ?c1 = "store w1 c"
  have c1: "tx ?c1 = Some w1" "?c1 = c\<lparr>tx := Some w1\<rparr>" using Cons.prems by (simp_all add: store_def)
  let ?c2 = "store (insert_stock pid L q w1) ?c1"
  have c2: "tx ?c2 = Some (insert_stock pid L q w1)" "?c2 = c\<lparr>tx := Some (insert_stock pid L q w1)\<rparr>"
    using Cons.prems by (simp_all add: store_def)
  show ?case
  proof (cases "rc = 0")
    case True
    then have up: "upsert pid L q w = insert_stock pid L q w1" using us by (simp add: upsert_def)
    from Cons.prems(2) True us up
    have k: "2 \<le> k" "loop_statements L items (insert_stock pid L q w1) \<le> k - Suc (Suc 0)"
      "loop_statements L (item # items) w = 2 + loop_statements L items (insert_stock pid L q w1)"
      by (simp_all add: item)
    from Cons.IH [OF c2(1) k(2)] k True us Cons.prems(1) c1(1) up show ?thesis
      by (simp add: item Let_def c2(2))
  next
    case False
    then have up: "upsert pid L q w = w1" using us by (simp add: upsert_def)
    from Cons.prems(2) False us up
    have k: "1 \<le> k" "loop_statements L items w1 \<le> k - 1"
      "loop_statements L (item # items) w = 1 + loop_statements L items w1"
      by (simp_all add: item)
    from Cons.IH [OF c1(1) k(2)] k False us Cons.prems(1) up show ?thesis
      by (simp add: item Let_def c1(2))
  qed
qed

lemma commit_thrown: "k < statements L d \<Longrightarrow> commit (Some k) L d = (CommitFailed, d)"
proof -
  assume k: "k < statements L d"
  let ?c1 = "sql_begin (connect d)"
  let ?n = "loop_statements L (select_drafts L d) d"
  have c1: "tx ?c1 = Some d" "?c1 = \<lparr>durable = d, tx = Some d\<rparr>" by (simp_all add: sql_begin_def connect_def)
  have "fst (commit (Some k) L d) = CommitFailed"
  proof (cases "k < 2")
    case True
    then show ?thesis by (cases k) (simp_all add: commit_unfold commit_try_def Let_def)
  next
    case k2: False
    show ?thesis
    proof (cases "k - Suc (Suc 0) < ?n")
      case True
      from upsert_loop_thrown [OF c1(1) this] k2 c1(1) show ?thesis
        by (auto simp: commit_unfold commit_try_def Let_def)
    next
      case False
      then have "?n \<le> k - Suc (Suc 0)" by simp
      from upsert_loop_returned [OF c1(1) this] k2 c1(1) k show ?thesis
        by (auto simp: commit_unfold commit_try_def Let_def statements_def)
    qed
  qed
  with commit_failed_state [of "Some k" L d] show ?thesis
    by (cases "commit (Some k) L d") simp
qed

lemma commit_not_thrown: "statements L d \<le> k \<Longrightarrow> commit (Some k) L d = commit None L d"
proof -
  assume k: "statements L d \<le> k"
  let ?c1 = "sql_begin (connect d)"
  let ?n = "loop_statements L (select_drafts L d) d"
  have c1: "tx ?c1 = Some d" "?c1 = \<lparr>durable = d, tx = Some d\<rparr>" by (simp_all add: sql_begin_def connect_def)
  from k have n: "?n \<le> k - Suc (Suc 0)" "2 \<le> k" "k - Suc (Suc 0) - ?n \<noteq> 0" "k - Suc (Suc 0) - ?n - 1 \<noteq> 0"
    by (simp_all add: statements_def)
  from upsert_loop_returned [OF c1(1) n(1)] n c1(1) show ?thesis
    unfolding commit_None
    by (simp add: commit_unfold commit_try_def Let_def c1(2) promote_def sql_commit_def store_def current_def)
qed

section \<open>The stock ledger under upserts\<close>

subsection \<open>One upsert, and the upserts of a commit\<close>

lemma upsert_stock_levels:
  "stock_levels (upsert pid L q d) =
     (if stock_for pid L d = []
      then stock_levels d @ [\<lparr>sl_product_id = pid, sl_location = L, on_hand = q, available = q\<rparr>]
      else map (\<lambda>s. if sl_product_id s = pid \<and> sl_location s = L then counted q s else s)
             (stock_levels d))"
  by (simp add: upsert_def update_stock_def insert_stock_def stock_for_def counted_def
      filter_empty_conv map_none_id)

lemma upsert_other [simp]:
  "inventory_counts (upsert pid L q d) = inventory_counts d"
  "products (upsert pid L q d) = products d"
  "locations (upsert pid L q d) = locations d"
  "next_id (upsert pid L q d) = next_id d"
  by (simp_all add: upsert_def update_stock_def insert_stock_def)

lemma upsert_all_other [simp]:
  "inventory_counts (upsert_all L items d) = inventory_counts d"
  "products (upsert_all L items d) = products d"
  "locations (upsert_all L items d) = locations d"
  "next_id (upsert_all L items d) = next_id d"
  by (induction items arbitrary: d; force)+

lemma filter_map_if:
  "(\<And>x. P (g x) = P x) \<Longrightarrow>
   filter P (map (\<lambda>x. if Q x then g x else x) xs) = map (\<lambda>x. if Q x then g x else x) (filter P xs)"
  by (induction xs) auto

lemma stock_for_upsert_same:
  "stock_for pid L (upsert pid L q d) =
     (if stock_for pid L d = []
      then [\<lparr>sl_product_id = pid, sl_location = L, on_hand = q, available = q\<rparr>]
      else map (counted q) (stock_for pid L d))"
proof (cases "stock_for pid L d = []")
  case True
  then show ?thesis
    by (simp add: stock_for_def upsert_stock_levels)
next
  case False
  have "filter (\<lambda>s. sl_product_id s = pid \<and> sl_location s = L)
          (map (\<lambda>s. if sl_product_id s = pid \<and> sl_location s = L then counted q s else s) xs)
        = map (counted q) (filter (\<lambda>s. sl_product_id s = pid \<and> sl_location s = L) xs)" for xs
    by (induction xs) (auto simp: counted_def)
  with False show ?thesis
    by (simp add: stock_for_def upsert_stock_levels)
qed

lemma stock_for_upsert_other:
  "(p, L') \<noteq> (pid, L) \<Longrightarrow> stock_for p L' (upsert pid L q d) = stock_for p L' d"
proof -
  assume ne: "(p, L') \<noteq> (pid, L)"
  have "filter (\<lambda>s. sl_product_id s = p \<and> sl_location s = L')
          (map (\<lambda>s. if sl_product_id s = pid \<and> sl_location s = L then counted q s else s) xs)
        = filter (\<lambda>s. sl_product_id s = p \<and> sl_location s = L') xs" for xs
    using ne by (induction xs) (auto simp: counted_def)
  with ne show ?thesis
    by (auto simp: stock_for_def upsert_stock_levels)
qed

lemma stock_for_upsert_all_other:
  "p \<notin> fst ` set items \<or> L' \<noteq> L \<Longrightarrow> stock_for p L' (upsert_all L items d) = stock_for p L' d"
proof (induction items arbitrary: d)
  case Nil
  then show ?case by simp
next
  case (Cons item items)
  obtain pid q where item: "item = (pid, q)" by (cases item)
  from Cons.prems have "(p, L') \<noteq> (pid, L)" by (auto simp: item)
  from stock_for_upsert_other [OF this] Cons show ?case
    by (auto simp: item)
qed

lemma stock_for_upsert_all:
  "distinct (map fst items) \<Longrightarrow> (pid, q) \<in> set items \<Longrightarrow>
   stock_for pid L (upsert_all L items d) =
     (if stock_for pid L d = []
      then [\<lparr>sl_product_id = pid, sl_location = L, on_hand = q, available = q\<rparr>]
      else map (counted q) (stock_for pid L d))"
proof (induction items arbitrary: d)
  case Nil
  then show ?case by simp
next
  case (Cons item items)
  obtain p' q' where item: "item = (p', q')" by (cases item)
  show ?case
  proof (cases "item = (pid, q)")
    case True
    with Cons.prems have "pid \<notin> fst ` set items" by auto
    then have "stock_for pid L (upsert_all L items (upsert pid L q d)) = stock_for pid L (upsert pid L q d)"
      by (simp add: stock_for_upsert_all_other)
    with True show ?thesis by (simp add: stock_for_upsert_same)
  next
    case False
    with Cons.prems have mem: "(pid, q) \<in> set items" and ne: "p' \<noteq> pid"
      by (auto simp: item rev_image_eqI)
    from ne have "stock_for pid L (upsert p' L q' d) = stock_for pid L d"
      by (simp add: stock_for_upsert_other)
    with Cons.IH [OF _ mem, of "upsert p' L q' d"] Cons.prems(1) show ?thesis
      by (simp add: item)
  qed
qed

lemma stock_unique_upsert: "stock_unique d \<Longrightarrow> stock_unique (upsert pid L q d)"
proof -
  assume u: "stock_unique d"
  have m: "map (\<lambda>s. (sl_product_id s, sl_location s))
          (map (\<lambda>s. if sl_product_id s = pid \<and> sl_location s = L then counted q s else s) xs)
        = map (\<lambda>s. (sl_product_id s, sl_location s)) xs" for xs
    by (induction xs) (auto simp: counted_def)
  show ?thesis
  proof (cases "stock_for pid L d = []")
    case True
    then have "(pid, L) \<notin> set (map (\<lambda>s. (sl_product_id s, sl_location s)) (stock_levels d))"
      by (auto simp: stock_for_def filter_empty_conv)
    with u True show ?thesis
      by (simp add: stock_unique_def upsert_stock_levels)
  next
    case False
    then have "map (\<lambda>s. (sl_product_id s, sl_location s)) (stock_levels (upsert pid L q d))
        = map (\<lambda>s. (sl_product_id s, sl_location s)) (stock_levels d)"
      by (simp only: upsert_stock_levels if_False m)
    with u show ?thesis
      by (simp only: stock_unique_def)
  qed
qed

lemma stock_unique_upsert_all: "stock_unique d \<Longrightarrow> stock_unique (upsert_all L items d)"
  by (induction items arbitrary: d) (auto simp: stock_unique_upsert)

lemma written_refl [simp]: "written d d"
  by (simp add: written_def)

lemma written_trans: "written d d1 \<Longrightarrow> written d1 d2 \<Longrightarrow> written d d2"
  by (auto simp: written_def)

lemma written_upsert: "written d (upsert pid L q d)"
  by (auto simp: written_def upsert_stock_levels counted_def)

lemma written_upsert_all: "written d (upsert_all L items d)"
proof (induction items arbitrary: d)
  case Nil
  then show ?case by simp
next
  case (Cons item items)
  obtain pid q where item: "item = (pid, q)" by (cases item)
  from written_trans [OF written_upsert Cons.IH] show ?case by (simp add: item)
qed

subsection \<open>The database after a commit without failure\<close>

lemma promote_fields [simp]:
  "stock_levels (promote L d) = stock_levels (upsert_all L (select_drafts L d) d)"
  "inventory_counts (promote L d) =
     filter (\<lambda>r. \<not> (ic_location r = L \<and> ic_status r = DRAFT)) (inventory_counts d)"
  "products (promote L d) = products d"
  by (simp_all add: promote_def delete_drafts_def)

lemma stock_for_promote [simp]: "stock_for p L' (promote L d) = stock_for p L' (upsert_all L (select_drafts L d) d)"
  by (simp add: stock_for_def)

lemma select_review_empty:
  "\<forall>r\<in>set (inventory_counts d). \<not> (ic_location r = L \<and> ic_status r = DRAFT) \<Longrightarrow> select_review L d = []"
proof -
  assume a: "\<forall>r\<in>set (inventory_counts d). \<not> (ic_location r = L \<and> ic_status r = DRAFT)"
  have "row \<notin> set (select_review L d)" for row
    using a select_review_ids [of row L d] by blast
  then show ?thesis by (cases "select_review L d") auto
qed

lemma select_review_promote: "select_review L (promote L d) = []"
  by (rule select_review_empty) simp

lemma draft_unique_select_drafts: "draft_unique d \<Longrightarrow> distinct (map fst (select_drafts L d))"
proof -
  have "distinct (map (\<lambda>r. (ic_product_id r, ic_location r)) (filter (\<lambda>r. ic_status r = DRAFT) xs)) \<Longrightarrow>
        distinct (map ic_product_id (filter (\<lambda>r. ic_location r = L \<and> ic_status r = DRAFT) xs))"
    for xs :: "inventory_count list"
    by (induction xs) (auto simp: image_iff split: if_splits)
  then show "draft_unique d \<Longrightarrow> distinct (map fst (select_drafts L d))"
    by (simp add: draft_unique_def select_drafts_def comp_def)
qed

section \<open>Invariants of the handlers\<close>

subsection \<open>Drafts stay unique\<close>

lemma draft_keys_quantity:
  "map (\<lambda>r. (ic_product_id r, ic_location r))
     (filter (\<lambda>r. ic_status r = DRAFT) (map (\<lambda>r. if ic_id r = i then r\<lparr>quantity := h r\<rparr> else r) xs))
   = map (\<lambda>r. (ic_product_id r, ic_location r)) (filter (\<lambda>r. ic_status r = DRAFT) xs)"
  by (induction xs) auto

lemma draft_unique_increment: "draft_unique d \<Longrightarrow> draft_unique (increment_draft i d)"
  by (simp add: draft_unique_def increment_draft_def draft_keys_quantity)

lemma draft_unique_update_draft: "draft_unique d \<Longrightarrow> draft_unique (update_draft q i d)"
  by (simp add: draft_unique_def update_draft_def draft_keys_quantity)

lemma draft_unique_filter:
  "draft_unique d \<Longrightarrow> draft_unique (d\<lparr>inventory_counts := filter P (inventory_counts d)\<rparr>)"
proof -
  have "filter (\<lambda>r. ic_status r = DRAFT) (filter P xs) = filter P (filter (\<lambda>r. ic_status r = DRAFT) xs)" for xs
    by (induction xs) auto
  moreover have "inventory_counts (d\<lparr>inventory_counts := X\<rparr>) = X" for X by simp
  ultimately have "draft_unique (d\<lparr>inventory_counts := filter P (inventory_counts d)\<rparr>) =
      distinct (map (\<lambda>r. (ic_product_id r, ic_location r))
                 (filter P (filter (\<lambda>r. ic_status r = DRAFT) (inventory_counts d))))"
    by (simp only: draft_unique_def)
  then show "draft_unique d \<Longrightarrow> draft_unique (d\<lparr>inventory_counts := filter P (inventory_counts d)\<rparr>)"
    by (simp only: draft_unique_def distinct_map_filter)
qed

lemma draft_unique_delete_draft: "draft_unique d \<Longrightarrow> draft_unique (delete_draft i d)"
  unfolding delete_draft_def by (rule draft_unique_filter)

lemma draft_unique_delete_drafts: "draft_unique d \<Longrightarrow> draft_unique (delete_drafts L d)"
  unfolding delete_drafts_def by (rule draft_unique_filter)

lemma draft_unique_insert:
  "select_draft pid L d = [] \<Longrightarrow> draft_unique d \<Longrightarrow> draft_unique (insert_draft pid L uid now d)"
proof -
  assume e: "select_draft pid L d = []" and u: "draft_unique d"
  from e have "(pid, L) \<notin> set (map (\<lambda>r. (ic_product_id r, ic_location r))
                              (filter (\<lambda>r. ic_status r = DRAFT) (inventory_counts d)))"
    by (auto simp: select_draft_def filter_empty_conv)
  with u show ?thesis
    by (simp add: draft_unique_def insert_draft_def)
qed

lemma draft_unique_scan: "draft_unique d \<Longrightarrow> draft_unique (snd (scan f barcode L uid now d))"
  by (auto simp: scan_def draft_unique_increment draft_unique_insert split: list.splits)

lemma draft_unique_update: "draft_unique d \<Longrightarrow> draft_unique (snd (update f i q d))"
  by (simp add: update_def draft_unique_delete_draft draft_unique_update_draft)

lemma draft_unique_upsert_all: "draft_unique (upsert_all L items d) = draft_unique d"
  by (simp add: draft_unique_def)

lemma draft_unique_promote: "draft_unique d \<Longrightarrow> draft_unique (promote L d)"
  by (simp add: promote_def draft_unique_delete_drafts draft_unique_upsert_all)

lemma commit_state: "snd (commit f L d) = d \<or> snd (commit f L d) = promote L d"
proof (cases "commit f L d")
  case (Pair r d')
  show ?thesis
  proof (cases r)
    case (CommitOk n)
    with Pair commit_success [of f L d n d'] show ?thesis by simp
  next
    case CommitFailed
    with Pair commit_failed_state [of f L d] show ?thesis by simp
  qed
qed

lemma draft_unique_commit: "draft_unique d \<Longrightarrow> draft_unique (snd (commit f L d))"
  using commit_state [of f L d] by (auto simp: draft_unique_promote)

lemma draft_unique_step: "draft_unique d \<Longrightarrow> draft_unique (step op d)"
  by (cases op) (simp_all add: draft_unique_scan draft_unique_update draft_unique_commit)

lemma draft_unique_run: "draft_unique d \<Longrightarrow> draft_unique (run ops d)"
  unfolding run_def by (induction ops arbitrary: d) (simp_all add: draft_unique_step)

subsection \<open>The stock ledger stays unique\<close>

lemma scan_stock [simp]: "stock_levels (snd (scan f barcode L uid now d)) = stock_levels d"
  by (simp add: scan_def increment_draft_def insert_draft_def split: list.splits)

lemma update_stock_levels [simp]: "stock_levels (snd (update f i q d)) = stock_levels d"
  by (simp add: update_def delete_draft_def update_draft_def)

lemma stock_unique_promote: "stock_unique d \<Longrightarrow> stock_unique (promote L d)"
  using stock_unique_upsert_all [of d L "select_drafts L d"] by (simp add: stock_unique_def)

lemma stock_unique_commit: "stock_unique d \<Longrightarrow> stock_unique (snd (commit f L d))"
  using commit_state [of f L d] by (auto simp: stock_unique_promote)

lemma written_commit: "written d (snd (commit f L d))"
  using commit_state [of f L d] written_upsert_all [of d L "select_drafts L d"]
  by (auto simp: written_def)

lemma stock_step: "stock_unique d \<Longrightarrow> stock_unique (step op d)"
  by (cases op) (simp_all add: stock_unique_commit, simp_all add: stock_unique_def)

lemma written_step: "written d (step op d)"
  by (cases op) (simp_all add: written_commit, simp_all add: written_def)

lemma stock_run: "stock_unique d \<Longrightarrow> stock_unique (run ops d)"
  unfolding run_def by (induction ops arbitrary: d) (simp_all add: stock_step)

lemma written_run: "written d (run ops d)"
  unfolding run_def
proof (induction ops arbitrary: d)
  case Nil
  then show ?case by simp
next
  case (Cons op ops)
  from written_trans [OF written_step Cons.IH] show ?case by simp
qed

subsection \<open>Scans of one code at one location\<close>

lemma select_draft_increment:
  "select_draft pid L (increment_draft i d) =
     map (\<lambda>r. if ic_id r = i then r\<lparr>quantity := quantity r + 1\<rparr> else r) (select_draft pid L d)"
  by (simp add: select_draft_def increment_draft_def filter_map_if)

lemma select_draft_insert:
  "select_draft pid L d = [] \<Longrightarrow>
   select_draft pid L (insert_draft pid L uid now d) =
     [\<lparr>ic_id = next_id d, ic_product_id = pid, ic_location = L, quantity = 1,
       user_id = uid, ic_status = DRAFT, scanned_at = now\<rparr>]"
  by (simp add: select_draft_def insert_draft_def)

lemma scan_products [simp]: "products (snd (scan f barcode L uid now d)) = products d"
  by (simp add: scan_def increment_draft_def insert_draft_def split: list.splits)

lemma select_product_scan [simp]:
  "select_product b (snd (scan f barcode L uid now d)) = select_product b d"
  by (simp add: select_product_def)

lemma scan_existing:
  "select_product barcode d = product # ps \<Longrightarrow> select_draft (product_id product) L d = r # rs \<Longrightarrow>
   scan None barcode L uid now d = (ScanOk product, increment_draft (ic_id r) d)"
  by (simp add: scan_def)

lemma scan_new:
  "select_product barcode d = product # ps \<Longrightarrow> select_draft (product_id product) L d = [] \<Longrightarrow>
   scan None barcode L uid now d = (ScanOk product, insert_draft (product_id product) L uid now d)"
  by (simp add: scan_def)

lemma scans_existing:
  "select_product barcode d = product # ps \<Longrightarrow> select_draft (product_id product) L d = [r] \<Longrightarrow>
   \<exists>r'. select_draft (product_id product) L
           (run (map (\<lambda>(uid, now). Scan None barcode L uid now) uts) d) = [r'] \<and>
        quantity r' = quantity r + int (length uts)"
proof (induction uts arbitrary: d r)
  case Nil
  then show ?case by (simp add: run_def)
next
  case (Cons ut uts)
  obtain uid now where ut: "ut = (uid, now)" by (cases ut)
  let ?d1 = "snd (scan None barcode L uid now d)"
  have d1: "?d1 = increment_draft (ic_id r) d"
    using scan_existing [OF Cons.prems] by simp
  have p: "select_product barcode ?d1 = product # ps" using Cons.prems(1) by simp
  have s: "select_draft (product_id product) L ?d1 = [r\<lparr>quantity := quantity r + 1\<rparr>]"
    using Cons.prems(2) by (simp add: d1 select_draft_increment)
  from Cons.IH [OF p s] show ?case
    by (simp add: ut run_def add.assoc)
qed

lemma scans_new:
  "select_product barcode d = product # ps \<Longrightarrow> select_draft (product_id product) L d = [] \<Longrightarrow>
   uts \<noteq> [] \<Longrightarrow>
   \<exists>r'. select_draft (product_id product) L
           (run (map (\<lambda>(uid, now). Scan None barcode L uid now) uts) d) = [r'] \<and>
        quantity r' = int (length uts)"
proof -
  assume sp: "select_product barcode d = product # ps"
    and sd: "select_draft (product_id product) L d = []" and ne: "uts \<noteq> []"
  from ne obtain uid now uts' where uts: "uts = (uid, now) # uts'" by (cases uts) auto
  let ?d1 = "snd (scan None barcode L uid now d)"
  have d1: "?d1 = insert_draft (product_id product) L uid now d"
    using scan_new [OF sp sd] by simp
  have p: "select_product barcode ?d1 = product # ps" using sp by simp
  have s: "select_draft (product_id product) L ?d1 =
      [\<lparr>ic_id = next_id d, ic_product_id = product_id product, ic_location = L, quantity = 1,
        user_id = uid, ic_status = DRAFT, scanned_at = now\<rparr>]"
    using sd by (simp add: d1 select_draft_insert)
  from scans_existing [OF p s, of uts'] show ?thesis
    by (simp add: uts run_def)
qed

section \<open>The scan handler in two steps, and two scans interleaved\<close>

text \<open>A scan in which no statement throws is its two \<^verbatim>\<open>SELECT\<close>s followed by the write they decide on.\<close>

lemma scan_split:
  "scan None barcode L uid now d =
     (scan_answer (scan_check barcode L d), scan_apply (scan_check barcode L d) L uid now d)"
  by (simp add: scan_def scan_check_def scan_answer_def scan_apply_def split: list.splits)

lemma scan_check_new:
  "select_product barcode d = product # ps \<Longrightarrow> select_draft (product_id product) L d = [] \<Longrightarrow>
   scan_check barcode L d = Some (product, Create (product_id product))"
  by (simp add: scan_check_def)

lemma two_inserts:
  "inventory_counts (insert_draft pid L uid2 now2 (insert_draft pid L uid1 now1 d)) =
     inventory_counts d @
     [\<lparr>ic_id = next_id d, ic_product_id = pid, ic_location = L, quantity = 1,
       user_id = uid1, ic_status = DRAFT, scanned_at = now1\<rparr>,
      \<lparr>ic_id = Suc (next_id d), ic_product_id = pid, ic_location = L, quantity = 1,
       user_id = uid2, ic_status = DRAFT, scanned_at = now2\<rparr>]"
  by (simp add: insert_draft_def)

lemma two_inserts_not_unique: "\<not> draft_unique (insert_draft pid L uid2 now2 (insert_draft pid L uid1 now1 d))"
  by (simp add: draft_unique_def two_inserts)

lemma two_inserts_select:
  "select_draft pid L d = [] \<Longrightarrow>
   select_draft pid L (insert_draft pid L uid2 now2 (insert_draft pid L uid1 now1 d)) =
     [\<lparr>ic_id = next_id d, ic_product_id = pid, ic_location = L, quantity = 1,
       user_id = uid1, ic_status = DRAFT, scanned_at = now1\<rparr>,
      \<lparr>ic_id = Suc (next_id d), ic_product_id = pid, ic_location = L, quantity = 1,
       user_id = uid2, ic_status = DRAFT, scanned_at = now2\<rparr>]"
  by (simp add: select_draft_def two_inserts)

section \<open>Properties of the handlers\<close>

lemma promote_no_drafts: "select_drafts L d = [] \<Longrightarrow> promote L d = d"
proof -
  assume e: "select_drafts L d = []"
  then have "\<forall>r\<in>set (inventory_counts d). \<not> (ic_location r = L \<and> ic_status r = DRAFT)"
    by (simp add: select_drafts_def filter_empty_conv)
  then have "filter (\<lambda>r. \<not> (ic_location r = L \<and> ic_status r = DRAFT)) (inventory_counts d) = inventory_counts d"
    by simp
  with e show ?thesis by (simp add: promote_def delete_drafts_def)
qed

lemma commit_cases:
  "commit f L d =
     (if \<exists>k. f = Some k \<and> k < statements L d then (CommitFailed, d)
      else (CommitOk (length (select_drafts L d)), promote L d))"
proof (cases f)
  case None
  then show ?thesis by (simp add: commit_None)
next
  case (Some k)
  then show ?thesis
    by (cases "k < statements L d") (simp_all add: commit_thrown commit_not_thrown commit_None)
qed

lemma commit_handler_cases:
  "commit_handler f L (connect d) =
     (if \<exists>k. f = Some k \<and> k < statements L d then (CommitFailed, connect d)
      else (CommitOk (length (select_drafts L d)), connect (promote L d)))"
proof (cases "commit_try L f (connect d)")
  case (Inl c)
  then have "fst (commit f L d) = CommitFailed" by (simp add: commit_unfold)
  then have "\<exists>k. f = Some k \<and> k < statements L d"
    by (simp add: commit_cases split: if_splits)
  with Inl commit_try_rolled_back [OF Inl] show ?thesis
    by (simp add: commit_handler_def)
next
  case (Inr p)
  obtain n c where p: "p = (n, c)" by (cases p)
  from Inr p have "fst (commit f L d) = CommitOk n" by (simp add: commit_unfold)
  then have "\<not> (\<exists>k. f = Some k \<and> k < statements L d)"
    by (auto simp: commit_cases split: if_splits)
  with Inr p commit_try_success [of L f d n c] show ?thesis
    by (simp add: commit_handler_def)
qed

text \<open>
  C1. A commit that answers with success leaves no draft of its location for the review
  to list, answers with the number of draft rows it read, and, when the drafts held
  at most one row per product and location, leaves for every such draft at least one
  stock row of its product at the location and only stock rows with \<open>on_hand\<close> and
  \<open>available\<close> equal to the draft's quantity.
\<close>

theorem commit_promotes_drafts:
  assumes "commit f L d = (CommitOk n, d')"
  shows "review None L d' = ReviewOk [] \<and>
         n = length (filter (\<lambda>r. ic_location r = L \<and> ic_status r = DRAFT) (inventory_counts d)) \<and>
         (draft_unique d \<longrightarrow>
            (\<forall>r\<in>set (inventory_counts d). ic_location r = L \<and> ic_status r = DRAFT \<longrightarrow>
               stock_for (ic_product_id r) L d' \<noteq> [] \<and>
               (\<forall>s\<in>set (stock_for (ic_product_id r) L d').
                  on_hand s = quantity r \<and> available s = quantity r)))"
proof -
  from commit_success [OF assms] have n: "n = length (select_drafts L d)" and d': "d' = promote L d"
    by simp_all
  have "review None L d' = ReviewOk []"
    by (simp add: review_def d' select_review_promote)
  moreover have "n = length (filter (\<lambda>r. ic_location r = L \<and> ic_status r = DRAFT) (inventory_counts d))"
    by (simp add: n select_drafts_def)
  moreover have "stock_for (ic_product_id r) L d' \<noteq> [] \<and>
      (\<forall>s\<in>set (stock_for (ic_product_id r) L d'). on_hand s = quantity r \<and> available s = quantity r)"
    if u: "draft_unique d" and r: "r \<in> set (inventory_counts d)" "ic_location r = L \<and> ic_status r = DRAFT" for r
  proof -
    from r have "(ic_product_id r, quantity r) \<in> set (select_drafts L d)"
      by (auto simp: select_drafts_def)
    from stock_for_upsert_all [OF draft_unique_select_drafts [OF u] this, of L d]
    show ?thesis by (auto simp: d' counted_def)
  qed
  ultimately show ?thesis by blast
qed

text \<open>
  At the dock both drafts are promoted: product 1 from stock 10 to 5, product 2 to a new
  row of 3.
\<close>

theorem commit_promotes_drafts_witness:
  "commit None ''Dock'' dock_db =
     (CommitOk 2, dock_db\<lparr>inventory_counts := [],
        stock_levels := [\<lparr>sl_product_id = 1, sl_location = ''Dock'', on_hand = 5, available = 5\<rparr>,
                         \<lparr>sl_product_id = 2, sl_location = ''Dock'', on_hand = 3, available = 3\<rparr>]\<rparr>) \<and>
   draft_unique dock_db \<and>
   review None ''Dock'' (snd (commit None ''Dock'' dock_db)) = ReviewOk [] \<and>
   stock_for 2 ''Dock'' (snd (commit None ''Dock'' dock_db)) \<noteq> []"
proof -
  let ?d' = "dock_db\<lparr>inventory_counts := [],
        stock_levels := [\<lparr>sl_product_id = 1, sl_location = ''Dock'', on_hand = 5, available = 5\<rparr>,
                         \<lparr>sl_product_id = 2, sl_location = ''Dock'', on_hand = 3, available = 3\<rparr>]\<rparr>"
  have h: "commit None ''Dock'' dock_db = (CommitOk 2, ?d')"
    by (simp add: commit_None promote_def select_drafts_def upsert_all_def upsert_def update_stock_def
        insert_stock_def delete_drafts_def dock_db_def)
  have u: "draft_unique dock_db"
    by (simp add: draft_unique_def dock_db_def)
  have r: "\<lparr>ic_id = 2, ic_product_id = 2, ic_location = ''Dock'', quantity = 3,
          user_id = 9, ic_status = DRAFT, scanned_at = 101\<rparr> \<in> set (inventory_counts dock_db)"
    by (simp add: dock_db_def)
  from commit_promotes_drafts [OF h] u r
  have "review None ''Dock'' ?d' = ReviewOk []" and "stock_for 2 ''Dock'' ?d' \<noteq> []"
    by force+
  with h u show ?thesis by simp
qed

lemma length_stock_for_upsert_all:
  "length (stock_for p L' (upsert_all L items d)) =
     (if stock_for p L' d = [] \<and> L' = L \<and> p \<in> fst ` set items then 1
      else length (stock_for p L' d))"
proof (induction items arbitrary: d)
  case Nil
  then show ?case by simp
next
  case (Cons item items)
  obtain pid q where item: "item = (pid, q)" by (cases item)
  show ?case
  proof (cases "(p, L') = (pid, L)")
    case True
    then have "stock_for p L' (upsert pid L q d) \<noteq> []"
      and "length (stock_for p L' (upsert pid L q d)) = (if stock_for p L' d = [] then 1 else length (stock_for p L' d))"
      by (simp_all add: stock_for_upsert_same)
    with Cons.IH [of "upsert pid L q d"] True show ?thesis
      by (simp add: item)
  next
    case False
    from stock_for_upsert_other [OF this] Cons.IH [of "upsert pid L q d"] False show ?thesis
      by (auto simp: item)
  qed
qed

text \<open>
  C2. A commit answers with failure exactly when one of the statements it issues throws.
  Whatever the client had written in its transaction when the statement threw, the
  \<^verbatim>\<open>ROLLBACK\<close> of the \<^verbatim>\<open>catch\<close> block drops it: the handler releases the client
  with no open transaction and with the database it started from, so no stock row is
  changed and no draft row is deleted.
\<close>

theorem commit_all_or_nothing:
  "(fst (commit f L d) = CommitFailed \<longleftrightarrow> (\<exists>k. f = Some k \<and> k < statements L d)) \<and>
   (fst (commit f L d) = CommitFailed \<longrightarrow> snd (commit f L d) = d) \<and>
   (\<forall>c. commit_try L f (connect d) = Inl c \<longrightarrow>
        sql_rollback c = connect d \<and>
        commit_handler f L (connect d) = (CommitFailed, connect d)) \<and>
   ((\<exists>k. f = Some k \<and> k < statements L d) \<longrightarrow>
        (\<exists>c. commit_try L f (connect d) = Inl c) \<and>
        commit_handler f L (connect d) = (CommitFailed, connect d))"
proof (intro conjI allI impI)
  show "fst (commit f L d) = CommitFailed \<longleftrightarrow> (\<exists>k. f = Some k \<and> k < statements L d)"
    by (simp add: commit_cases)
next
  assume "fst (commit f L d) = CommitFailed"
  then show "snd (commit f L d) = d" by (rule commit_failed_state)
next
  fix c
  assume t: "commit_try L f (connect d) = Inl c"
  then show "sql_rollback c = connect d" by (rule commit_try_rolled_back)
  with t show "commit_handler f L (connect d) = (CommitFailed, connect d)"
    by (simp add: commit_handler_def)
next
  assume k: "\<exists>k. f = Some k \<and> k < statements L d"
  then show h: "commit_handler f L (connect d) = (CommitFailed, connect d)"
    by (simp add: commit_handler_cases)
  then show "\<exists>c. commit_try L f (connect d) = Inl c"
    by (cases "commit_try L f (connect d)") (auto simp: commit_handler_def)
qed

text \<open>
  At the dock the fifth statement is the \<^verbatim>\<open>INSERT\<close> for product 2. When it throws, the
  client is inside a transaction whose working copy already has product 1 at 5; the
  handler answers with failure and releases the client outside any transaction, with
  the stock of product 1 still 10.
\<close>

theorem commit_all_or_nothing_witness:
  "(case commit_try ''Dock'' (Some 4) (connect dock_db) of
      Inl c \<Rightarrow> map_option (\<lambda>w. map on_hand (stock_levels w)) (tx c) | Inr _ \<Rightarrow> None) = Some [5] \<and>
   commit_handler (Some 4) ''Dock'' (connect dock_db) = (CommitFailed, connect dock_db) \<and>
   tx (connect dock_db) = None \<and>
   fst (commit (Some 4) ''Dock'' dock_db) = CommitFailed \<and>
   snd (commit (Some 4) ''Dock'' dock_db) = dock_db \<and>
   map on_hand (stock_levels dock_db) = [10]"
proof -
  have w: "(case commit_try ''Dock'' (Some 4) (connect dock_db) of
      Inl c \<Rightarrow> map_option (\<lambda>w. map on_hand (stock_levels w)) (tx c) | Inr _ \<Rightarrow> None) = Some [5]"
    by (simp add: commit_try_def connect_def sql_begin_def current_def store_def select_drafts_def
        update_stock_def dock_db_def Let_def)
  have s: "statements ''Dock'' dock_db = 7"
    by (simp add: statements_def select_drafts_def update_stock_def upsert_def insert_stock_def dock_db_def)
  from commit_all_or_nothing [of "Some 4" "''Dock''" dock_db] s
  have "commit_handler (Some 4) ''Dock'' (connect dock_db) = (CommitFailed, connect dock_db) \<and>
      fst (commit (Some 4) ''Dock'' dock_db) = CommitFailed \<and> snd (commit (Some 4) ''Dock'' dock_db) = dock_db"
    by simp
  moreover have "map on_hand (stock_levels dock_db) = [10]" by (simp add: dock_db_def)
  moreover have "tx (connect dock_db) = None" by (simp add: connect_def)
  ultimately show ?thesis using w by simp
qed

text \<open>
  C3. A scan of a code whose product already has a draft at the location adds no row and
  raises the quantity of the draft the handler found by exactly 1; a scan of a product
  without a draft there appends exactly one row, of quantity 1. So after n scans (n at
  least 1) of one code at one location that started without a draft, the product has
  exactly one draft there, of quantity n.
\<close>

theorem scan_merges_or_creates:
  assumes "select_product barcode d = product # ps"
  shows "(\<forall>r rs. select_draft (product_id product) L d = r # rs \<longrightarrow>
            fst (scan None barcode L uid now d) = ScanOk product \<and>
            length (inventory_counts (snd (scan None barcode L uid now d))) = length (inventory_counts d) \<and>
            select_draft (product_id product) L (snd (scan None barcode L uid now d)) =
              r\<lparr>quantity := quantity r + 1\<rparr> #
              map (\<lambda>x. if ic_id x = ic_id r then x\<lparr>quantity := quantity x + 1\<rparr> else x) rs) \<and>
         (select_draft (product_id product) L d = [] \<longrightarrow>
            fst (scan None barcode L uid now d) = ScanOk product \<and>
            inventory_counts (snd (scan None barcode L uid now d)) =
              inventory_counts d @
              [\<lparr>ic_id = next_id d, ic_product_id = product_id product, ic_location = L, quantity = 1,
                user_id = uid, ic_status = DRAFT, scanned_at = now\<rparr>] \<and>
            select_draft (product_id product) L (snd (scan None barcode L uid now d)) =
              [\<lparr>ic_id = next_id d, ic_product_id = product_id product, ic_location = L, quantity = 1,
                user_id = uid, ic_status = DRAFT, scanned_at = now\<rparr>]) \<and>
         (select_draft (product_id product) L d = [] \<longrightarrow>
            (\<forall>uts. uts \<noteq> [] \<longrightarrow>
               (\<exists>r. select_draft (product_id product) L
                       (run (map (\<lambda>(uid, now). Scan None barcode L uid now) uts) d) = [r] \<and>
                    quantity r = int (length uts))))"
proof (intro conjI allI impI)
  fix r rs
  assume sd: "select_draft (product_id product) L d = r # rs"
  note e = scan_existing [OF assms sd, of uid now]
  show "fst (scan None barcode L uid now d) = ScanOk product" by (simp add: e)
  show "length (inventory_counts (snd (scan None barcode L uid now d))) = length (inventory_counts d)"
    by (simp add: e increment_draft_def)
  show "select_draft (product_id product) L (snd (scan None barcode L uid now d)) =
      r\<lparr>quantity := quantity r + 1\<rparr> #
      map (\<lambda>x. if ic_id x = ic_id r then x\<lparr>quantity := quantity x + 1\<rparr> else x) rs"
    by (simp add: e select_draft_increment sd)
next
  assume sd: "select_draft (product_id product) L d = []"
  note e = scan_new [OF assms sd, of uid now]
  show "fst (scan None barcode L uid now d) = ScanOk product" by (simp add: e)
  show "inventory_counts (snd (scan None barcode L uid now d)) =
      inventory_counts d @
      [\<lparr>ic_id = next_id d, ic_product_id = product_id product, ic_location = L, quantity = 1,
        user_id = uid, ic_status = DRAFT, scanned_at = now\<rparr>]"
    by (simp add: e insert_draft_def)
  show "select_draft (product_id product) L (snd (scan None barcode L uid now d)) =
      [\<lparr>ic_id = next_id d, ic_product_id = product_id product, ic_location = L, quantity = 1,
        user_id = uid, ic_status = DRAFT, scanned_at = now\<rparr>]"
    by (simp add: e select_draft_insert [OF sd])
next
  fix uts :: "(nat \<times> nat) list"
  assume sd: "select_draft (product_id product) L d = []" and ne: "uts \<noteq> []"
  from scans_new [OF assms sd ne]
  show "\<exists>r. select_draft (product_id product) L
              (run (map (\<lambda>(uid, now). Scan None barcode L uid now) uts) d) = [r] \<and>
           quantity r = int (length uts)" .
qed

text \<open>
  A scan of A1 at the dock raises its draft from 5 to 6; three scans of A1 in the yard,
  where it has no draft, leave one draft of quantity 3.
\<close>

theorem scan_merges_or_creates_witness:
  "select_product ''A1'' dock_db = [\<lparr>product_id = 1, name = ''Widget'', sku = ''A1''\<rparr>] \<and>
   map quantity (select_draft 1 ''Dock'' dock_db) = [5] \<and>
   map quantity (select_draft 1 ''Dock'' (snd (scan None ''A1'' ''Dock'' 7 200 dock_db))) = [6] \<and>
   select_draft 1 ''Yard'' dock_db = [] \<and>
   (\<exists>r. select_draft 1 ''Yard''
          (run [Scan None ''A1'' ''Yard'' 7 200, Scan None ''A1'' ''Yard'' 8 201,
                Scan None ''A1'' ''Yard'' 7 202] dock_db) = [r] \<and> quantity r = 3)"
proof -
  let ?p = "\<lparr>product_id = 1, name = ''Widget'', sku = ''A1''\<rparr>"
  have sp: "select_product ''A1'' dock_db = ?p # []"
    by (simp add: select_product_def dock_db_def)
  have a: "select_draft (product_id ?p) ''Dock'' dock_db =
      \<lparr>ic_id = 1, ic_product_id = 1, ic_location = ''Dock'', quantity = 5,
        user_id = 9, ic_status = DRAFT, scanned_at = 100\<rparr> # []"
    by (simp add: select_draft_def dock_db_def)
  have b: "select_draft (product_id ?p) ''Yard'' dock_db = []"
    by (simp add: select_draft_def dock_db_def)
  from scan_merges_or_creates [OF sp, of "''Dock''" 7 200] a
  have 1: "map quantity (select_draft 1 ''Dock'' (snd (scan None ''A1'' ''Dock'' 7 200 dock_db))) = [6]"
    by simp
  from scan_merges_or_creates [OF sp, of "''Yard''" 7 200] b
  have "\<forall>uts. uts \<noteq> [] \<longrightarrow>
      (\<exists>r. select_draft 1 ''Yard'' (run (map (\<lambda>(uid, now). Scan None ''A1'' ''Yard'' uid now) uts) dock_db) = [r]
           \<and> quantity r = int (length uts))"
    by simp
  from this [rule_format, of "[(7, 200), (8, 201), (7, 202)]"]
  have 2: "\<exists>r. select_draft 1 ''Yard''
          (run [Scan None ''A1'' ''Yard'' 7 200, Scan None ''A1'' ''Yard'' 8 201,
                Scan None ''A1'' ''Yard'' 7 202] dock_db) = [r] \<and> quantity r = 3"
    by simp
  from sp a b 1 2 show ?thesis by simp
qed

text \<open>
  Handlers run one after another, whether their statements throw or not, keep at most
  one draft row per product and location: a database with that property keeps it under
  each operation and under every sequence of operations.
\<close>

lemma drafts_stay_unique:
  "draft_unique d \<Longrightarrow> draft_unique (step op d) \<and> draft_unique (run ops d)"
  by (simp add: draft_unique_step draft_unique_run)

text \<open>
  C4. The scan handler issues its \<^verbatim>\<open>SELECT\<close>s and its write as separate statements,
  each awaited and committed on its own, so the statements of two requests can
  interleave. When two scans of one code at one location, where the product has no
  draft, both run their \<^verbatim>\<open>SELECT\<close>s before either writes, both answer with success
  and both insert: the product then has two draft rows there, each of quantity 1, and
  the database no longer has at most one draft row per product and location.
\<close>

theorem interleaved_scans_duplicate:
  assumes "select_product barcode d = product # ps"
    and "select_draft (product_id product) L d = []"
  shows "fst (scan_interleaved barcode L uid1 now1 barcode L uid2 now2 d) = (ScanOk product, ScanOk product) \<and>
         \<not> draft_unique (snd (scan_interleaved barcode L uid1 now1 barcode L uid2 now2 d)) \<and>
         select_draft (product_id product) L (snd (scan_interleaved barcode L uid1 now1 barcode L uid2 now2 d)) =
           [\<lparr>ic_id = next_id d, ic_product_id = product_id product, ic_location = L, quantity = 1,
             user_id = uid1, ic_status = DRAFT, scanned_at = now1\<rparr>,
            \<lparr>ic_id = Suc (next_id d), ic_product_id = product_id product, ic_location = L, quantity = 1,
             user_id = uid2, ic_status = DRAFT, scanned_at = now2\<rparr>]"
proof -
  have "scan_interleaved barcode L uid1 now1 barcode L uid2 now2 d =
      ((ScanOk product, ScanOk product),
       insert_draft (product_id product) L uid2 now2 (insert_draft (product_id product) L uid1 now1 d))"
    by (simp add: scan_interleaved_def scan_check_new [OF assms] scan_answer_def scan_apply_def)
  then show ?thesis
    by (simp add: two_inserts_not_unique two_inserts_select [OF assms(2)])
qed

text \<open>
  The dock database has at most one draft per product and location, and none of product
  1 in the yard; two interleaved scans of A1 in the yard leave two.
\<close>

theorem interleaved_scans_duplicate_witness:
  "draft_unique dock_db \<and>
   select_draft 1 ''Yard'' dock_db = [] \<and>
   fst (scan_interleaved ''A1'' ''Yard'' 7 200 ''A1'' ''Yard'' 8 201 dock_db) =
     (ScanOk \<lparr>product_id = 1, name = ''Widget'', sku = ''A1''\<rparr>,
      ScanOk \<lparr>product_id = 1, name = ''Widget'', sku = ''A1''\<rparr>) \<and>
   \<not> draft_unique (snd (scan_interleaved ''A1'' ''Yard'' 7 200 ''A1'' ''Yard'' 8 201 dock_db)) \<and>
   map quantity (select_draft 1 ''Yard''
     (snd (scan_interleaved ''A1'' ''Yard'' 7 200 ''A1'' ''Yard'' 8 201 dock_db))) = [1, 1]"
proof -
  let ?p = "\<lparr>product_id = 1, name = ''Widget'', sku = ''A1''\<rparr>"
  have u: "draft_unique dock_db"
    by (simp add: draft_unique_def dock_db_def)
  have sp: "select_product ''A1'' dock_db = ?p # []"
    by (simp add: select_product_def dock_db_def)
  have sd: "select_draft (product_id ?p) ''Yard'' dock_db = []"
    by (simp add: select_draft_def dock_db_def)
  from interleaved_scans_duplicate [OF sp sd, of 7 200 8 201] u sd show ?thesis
    by simp
qed

text \<open>
  C5, as stated: an update of an identifier that no draft row has fails with a
  not-found error. The handler has no such answer: with no row at all, an update of
  identifier 7, to a positive or to a zero quantity, answers with success.
\<close>

theorem update_unknown_id_counterexample:
  "inventory_counts empty_db = [] \<and>
   update None 7 3 empty_db = (UpdateOk, empty_db) \<and>
   update None 7 0 empty_db = (UpdateOk, empty_db)"
  by (simp add: update_def update_draft_def delete_draft_def empty_db_def)

text \<open>
  C5, amended. An update never answers with a not-found error: it answers with failure
  exactly when its statement throws, and then changes nothing, and with success
  otherwise, whether or not a row has the identifier. When no row of
  \<^verbatim>\<open>inventory_counts\<close>, of whatever status, has the identifier, it changes nothing.
\<close>

theorem update_unknown_id:
  "fst (update f i q d) = (if throws f then UpdateFailed else UpdateOk) \<and>
   (throws f \<longrightarrow> snd (update f i q d) = d) \<and>
   ((\<forall>r\<in>set (inventory_counts d). ic_id r \<noteq> i) \<longrightarrow> snd (update f i q d) = d)"
  by (simp add: update_def delete_draft_absent update_draft_absent)

text \<open>
  At the dock no row has identifier 7: an update of it, to 3 or to 0, answers with
  success and changes nothing, and answers with failure when its statement throws. An
  update of identifier 2, which a row has, answers with success as well.
\<close>

theorem update_unknown_id_witness:
  "map ic_id (inventory_counts dock_db) = [1, 2] \<and>
   update None 7 3 dock_db = (UpdateOk, dock_db) \<and>
   update None 7 0 dock_db = (UpdateOk, dock_db) \<and>
   update (Some 0) 7 3 dock_db = (UpdateFailed, dock_db) \<and>
   fst (update None 2 3 dock_db) = UpdateOk"
proof -
  have m: "map ic_id (inventory_counts dock_db) = [1, 2]"
    by (simp add: dock_db_def)
  have h: "\<forall>r\<in>set (inventory_counts dock_db). ic_id r \<noteq> 7"
    by (simp add: dock_db_def)
  from update_unknown_id [of None 7 3 dock_db] h
  have 1: "update None 7 3 dock_db = (UpdateOk, dock_db)"
    by (cases "update None 7 3 dock_db") simp
  from update_unknown_id [of None 7 0 dock_db] h
  have 2: "update None 7 0 dock_db = (UpdateOk, dock_db)"
    by (cases "update None 7 0 dock_db") simp
  from update_unknown_id [of "Some 0" 7 3 dock_db]
  have 3: "update (Some 0) 7 3 dock_db = (UpdateFailed, dock_db)"
    by (cases "update (Some 0) 7 3 dock_db") simp
  from update_unknown_id [of None 2 3 dock_db]
  have 4: "fst (update None 2 3 dock_db) = UpdateOk"
    by simp
  from m 1 2 3 4 show ?thesis by simp
qed

text \<open>
  C6. For the identifier of an existing row and a statement that does not throw: an
  update to a quantity of 0 or less deletes the rows of that identifier and no others,
  and no review lists the identifier afterwards; an update to a positive quantity
  leaves every row in its place and sets the quantity of the rows of that identifier,
  and of no others, to the given one.
\<close>

theorem update_sets_or_deletes:
  assumes "r \<in> set (inventory_counts d)" and "ic_id r = i" and "\<not> throws f"
  shows "(q \<le> 0 \<longrightarrow>
            fst (update f i q d) = UpdateOk \<and>
            inventory_counts (snd (update f i q d)) = filter (\<lambda>x. ic_id x \<noteq> i) (inventory_counts d) \<and>
            (\<forall>g L rows. review g L (snd (update f i q d)) = ReviewOk rows \<longrightarrow>
                (\<forall>row\<in>set rows. fst row \<noteq> i))) \<and>
         (0 < q \<longrightarrow>
            fst (update f i q d) = UpdateOk \<and>
            inventory_counts (snd (update f i q d)) =
              map (\<lambda>x. if ic_id x = i then x\<lparr>quantity := q\<rparr> else x) (inventory_counts d) \<and>
            r\<lparr>quantity := q\<rparr> \<in> set (inventory_counts (snd (update f i q d))))"
proof (intro conjI impI)
  assume q: "q \<le> 0"
  then show "fst (update f i q d) = UpdateOk" using assms by (simp add: update_def)
  from q show del: "inventory_counts (snd (update f i q d)) = filter (\<lambda>x. ic_id x \<noteq> i) (inventory_counts d)"
    using assms by (simp add: update_def delete_draft_def)
  show "\<forall>g L rows. review g L (snd (update f i q d)) = ReviewOk rows \<longrightarrow> (\<forall>row\<in>set rows. fst row \<noteq> i)"
  proof (intro allI impI ballI)
    fix g L rows row
    assume "review g L (snd (update f i q d)) = ReviewOk rows" and "row \<in> set rows"
    then have "row \<in> set (select_review L (snd (update f i q d)))"
      by (auto simp: review_def split: if_splits)
    from select_review_ids [OF this] del show "fst row \<noteq> i" by auto
  qed
next
  assume q: "0 < q"
  then show "fst (update f i q d) = UpdateOk" using assms by (simp add: update_def)
  from q show upd: "inventory_counts (snd (update f i q d)) =
      map (\<lambda>x. if ic_id x = i then x\<lparr>quantity := q\<rparr> else x) (inventory_counts d)"
    using assms by (simp add: update_def update_draft_def)
  show "r\<lparr>quantity := q\<rparr> \<in> set (inventory_counts (snd (update f i q d)))"
    unfolding upd using assms(1,2) by force
qed

text \<open>
  At the dock, the draft of identifier 2 is gone after an update to 0 and to -4, and has
  quantity 7 after an update to 7; the draft of identifier 1 keeps its quantity 5.
\<close>

theorem update_sets_or_deletes_witness:
  "map ic_id (inventory_counts dock_db) = [1, 2] \<and>
   map ic_id (inventory_counts (snd (update None 2 0 dock_db))) = [1] \<and>
   map ic_id (inventory_counts (snd (update None 2 (- 4) dock_db))) = [1] \<and>
   map (\<lambda>x. (ic_id x, quantity x)) (inventory_counts (snd (update None 2 7 dock_db))) = [(1, 5), (2, 7)]"
proof -
  let ?r = "\<lparr>ic_id = 2, ic_product_id = 2, ic_location = ''Dock'', quantity = 3,
          user_id = 9, ic_status = DRAFT, scanned_at = 101\<rparr>"
  have r: "?r \<in> set (inventory_counts dock_db)" and i: "ic_id ?r = 2" and f: "\<not> throws None"
    by (simp_all add: dock_db_def)
  have ics: "inventory_counts dock_db =
      [\<lparr>ic_id = 1, ic_product_id = 1, ic_location = ''Dock'', quantity = 5,
        user_id = 9, ic_status = DRAFT, scanned_at = 100\<rparr>, ?r]"
    by (simp add: dock_db_def)
  from update_sets_or_deletes [OF r i f, of 0]
  have 1: "map ic_id (inventory_counts (snd (update None 2 0 dock_db))) = [1]"
    by (simp add: ics)
  from update_sets_or_deletes [OF r i f, of "- 4"]
  have 2: "map ic_id (inventory_counts (snd (update None 2 (- 4) dock_db))) = [1]"
    by (simp add: ics)
  from update_sets_or_deletes [OF r i f, of 7]
  have 3: "map (\<lambda>x. (ic_id x, quantity x)) (inventory_counts (snd (update None 2 7 dock_db))) = [(1, 5), (2, 7)]"
    by (simp add: ics)
  from 1 2 3 show ?thesis by (simp add: ics)
qed

text \<open>
  C7. A commit that answers with success, on drafts with at most one row per product and
  location, overwrites: for a draft of quantity q, the stock rows of its product at the
  location are afterwards the ones before with \<open>on_hand\<close> and \<open>available\<close> set to q,
  whatever they held, and when there was none, the single new row with both equal to q.
\<close>

theorem commit_overwrites_stock:
  assumes "draft_unique d" and "(pid, q) \<in> set (select_drafts L d)"
    and "commit f L d = (CommitOk n, d')"
  shows "stock_for pid L d' =
           (if stock_for pid L d = []
            then [\<lparr>sl_product_id = pid, sl_location = L, on_hand = q, available = q\<rparr>]
            else map (\<lambda>s. s\<lparr>on_hand := q, available := q\<rparr>) (stock_for pid L d))"
proof -
  from commit_success [OF assms(3)] have d': "d' = promote L d" by simp
  from stock_for_upsert_all [OF draft_unique_select_drafts [OF assms(1)] assms(2), of L d]
  show ?thesis
    by (simp add: d' counted_def [abs_def])
qed

text \<open>
  At the dock a draft of 5 over a stock of 10 gives 5, not 15, and the draft of 3 for the
  product without stock gives a new row of 3.
\<close>

theorem commit_overwrites_stock_witness:
  "draft_unique dock_db \<and> select_drafts ''Dock'' dock_db = [(1, 5), (2, 3)] \<and>
   stock_for 1 ''Dock'' dock_db =
     [\<lparr>sl_product_id = 1, sl_location = ''Dock'', on_hand = 10, available = 10\<rparr>] \<and>
   stock_for 2 ''Dock'' dock_db = [] \<and>
   stock_for 1 ''Dock'' (snd (commit None ''Dock'' dock_db)) =
     [\<lparr>sl_product_id = 1, sl_location = ''Dock'', on_hand = 5, available = 5\<rparr>] \<and>
   stock_for 2 ''Dock'' (snd (commit None ''Dock'' dock_db)) =
     [\<lparr>sl_product_id = 2, sl_location = ''Dock'', on_hand = 3, available = 3\<rparr>]"
proof -
  have u: "draft_unique dock_db"
    by (simp add: draft_unique_def dock_db_def)
  have sd: "select_drafts ''Dock'' dock_db = [(1, 5), (2, 3)]"
    by (simp add: select_drafts_def dock_db_def)
  have m1: "(1, 5) \<in> set (select_drafts ''Dock'' dock_db)"
    and m2: "(2, 3) \<in> set (select_drafts ''Dock'' dock_db)"
    by (simp_all add: sd)
  have c: "commit None ''Dock'' dock_db = (CommitOk 2, snd (commit None ''Dock'' dock_db))"
    by (simp add: commit_None sd)
  have s1: "stock_for 1 ''Dock'' dock_db =
      [\<lparr>sl_product_id = 1, sl_location = ''Dock'', on_hand = 10, available = 10\<rparr>]"
    and s2: "stock_for 2 ''Dock'' dock_db = []"
    by (simp_all add: stock_for_def dock_db_def)
  from commit_overwrites_stock [OF u m1 c] commit_overwrites_stock [OF u m2 c] u sd s1 s2
  show ?thesis by simp
qed

text \<open>
  C8. When a commit has answered with failure, any commit after it behaves as it would
  have on the database before the failed one; one in which no statement throws answers
  with the number of drafts and leaves the database a single commit without failure
  leaves.
\<close>

theorem commit_retry_after_rollback:
  "fst (commit f L d) = CommitFailed \<Longrightarrow>
   commit g L (snd (commit f L d)) = commit g L d \<and>
   commit None L (snd (commit f L d)) = (CommitOk (length (select_drafts L d)), promote L d)"
  by (simp add: commit_failed_state commit_None)

theorem commit_retry_after_rollback_witness:
  "fst (commit (Some 4) ''Dock'' dock_db) = CommitFailed \<and>
   stock_levels (snd (commit None ''Dock'' (snd (commit (Some 4) ''Dock'' dock_db)))) =
     [\<lparr>sl_product_id = 1, sl_location = ''Dock'', on_hand = 5, available = 5\<rparr>,
      \<lparr>sl_product_id = 2, sl_location = ''Dock'', on_hand = 3, available = 3\<rparr>] \<and>
   stock_levels (snd (commit None ''Dock'' dock_db)) =
     [\<lparr>sl_product_id = 1, sl_location = ''Dock'', on_hand = 5, available = 5\<rparr>,
      \<lparr>sl_product_id = 2, sl_location = ''Dock'', on_hand = 3, available = 3\<rparr>]"
proof -
  have s: "statements ''Dock'' dock_db = 7"
    by (simp add: statements_def select_drafts_def update_stock_def upsert_def insert_stock_def dock_db_def)
  have h: "fst (commit (Some 4) ''Dock'' dock_db) = CommitFailed"
    by (simp add: commit_thrown s)
  have p: "stock_levels (promote ''Dock'' dock_db) =
     [\<lparr>sl_product_id = 1, sl_location = ''Dock'', on_hand = 5, available = 5\<rparr>,
      \<lparr>sl_product_id = 2, sl_location = ''Dock'', on_hand = 3, available = 3\<rparr>]"
    by (simp add: select_drafts_def upsert_all_def upsert_def update_stock_def insert_stock_def dock_db_def)
  from commit_retry_after_rollback [OF h, of None] h p show ?thesis
    by (simp add: commit_None)
qed

text \<open>
  C9. Under every sequence of scans, updates and commits, whether their statements throw
  or not, a stock ledger with at most one row per product and location keeps that
  property, and every stock row is one the ledger had at the start or has \<open>on_hand\<close>
  equal to \<open>available\<close>. A commit adds a stock row for a product and location only where
  there was none and it succeeds with a draft of that product at its location, and then
  exactly one; elsewhere the number of rows stays. A commit that succeeds, on drafts
  with at most one row per product and location, updates where a row is present and
  inserts where none is: for a draft of quantity q the stock rows of its product at
  the location are the ones before with both fields set to q, or the one new row with
  both equal to q. The stock rows of every other product and location, and all stock
  rows when the commit fails, are the ones before.
\<close>

theorem stock_ledger_invariant:
  "(stock_unique d \<longrightarrow> stock_unique (run ops d)) \<and>
   (\<forall>s\<in>set (stock_levels (run ops d)). s \<in> set (stock_levels d) \<or> on_hand s = available s) \<and>
   length (stock_for p L' (snd (commit f L d))) =
     (if stock_for p L' d = [] \<and> L' = L \<and> fst (commit f L d) \<noteq> CommitFailed \<and>
         p \<in> fst ` set (select_drafts L d)
      then 1 else length (stock_for p L' d)) \<and>
   (draft_unique d \<and> fst (commit f L d) \<noteq> CommitFailed \<longrightarrow>
      (\<forall>q. (p, q) \<in> set (select_drafts L d) \<longrightarrow>
         stock_for p L (snd (commit f L d)) =
           (if stock_for p L d = []
            then [\<lparr>sl_product_id = p, sl_location = L, on_hand = q, available = q\<rparr>]
            else map (\<lambda>s. s\<lparr>on_hand := q, available := q\<rparr>) (stock_for p L d)))) \<and>
   (p \<notin> fst ` set (select_drafts L d) \<or> L' \<noteq> L \<longrightarrow>
      stock_for p L' (snd (commit f L d)) = stock_for p L' d) \<and>
   (fst (commit f L d) = CommitFailed \<longrightarrow> stock_levels (snd (commit f L d)) = stock_levels d)"
proof (intro conjI)
  show "stock_unique d \<longrightarrow> stock_unique (run ops d)"
    by (simp add: stock_run)
  show "\<forall>s\<in>set (stock_levels (run ops d)). s \<in> set (stock_levels d) \<or> on_hand s = available s"
    using written_run [of d ops] by (simp add: written_def)
  show "length (stock_for p L' (snd (commit f L d))) =
     (if stock_for p L' d = [] \<and> L' = L \<and> fst (commit f L d) \<noteq> CommitFailed \<and>
         p \<in> fst ` set (select_drafts L d)
      then 1 else length (stock_for p L' d))"
    by (auto simp: commit_cases length_stock_for_upsert_all)
  show "draft_unique d \<and> fst (commit f L d) \<noteq> CommitFailed \<longrightarrow>
      (\<forall>q. (p, q) \<in> set (select_drafts L d) \<longrightarrow>
         stock_for p L (snd (commit f L d)) =
           (if stock_for p L d = []
            then [\<lparr>sl_product_id = p, sl_location = L, on_hand = q, available = q\<rparr>]
            else map (\<lambda>s. s\<lparr>on_hand := q, available := q\<rparr>) (stock_for p L d)))"
  proof (intro impI allI)
    fix q
    assume a: "draft_unique d \<and> fst (commit f L d) \<noteq> CommitFailed"
      and m: "(p, q) \<in> set (select_drafts L d)"
    from a have s: "snd (commit f L d) = promote L d"
      by (auto simp: commit_cases split: if_splits)
    from a have dist: "distinct (map fst (select_drafts L d))"
      by (simp add: draft_unique_select_drafts)
    from stock_for_upsert_all [OF dist m, of L d]
    show "stock_for p L (snd (commit f L d)) =
           (if stock_for p L d = []
            then [\<lparr>sl_product_id = p, sl_location = L, on_hand = q, available = q\<rparr>]
            else map (\<lambda>s. s\<lparr>on_hand := q, available := q\<rparr>) (stock_for p L d))"
      by (simp add: s counted_def [abs_def])
  qed
  show "p \<notin> fst ` set (select_drafts L d) \<or> L' \<noteq> L \<longrightarrow>
      stock_for p L' (snd (commit f L d)) = stock_for p L' d"
    using commit_state [of f L d] by (auto simp: stock_for_upsert_all_other)
  show "fst (commit f L d) = CommitFailed \<longrightarrow> stock_levels (snd (commit f L d)) = stock_levels d"
    by (simp add: commit_failed_state)
qed

text \<open>
  At the dock the ledger has one row, product 1 at 10. A commit of the drafts 5 and 3
  updates that row to 5 and inserts one row of 3 for product 2; a further scan of B2 and
  a failed and a successful commit keep one row per product.
\<close>

theorem stock_ledger_invariant_witness:
  "stock_unique dock_db \<and> draft_unique dock_db \<and>
   stock_unique (run [Commit None ''Dock'', Scan None ''B2'' ''Dock'' 7 200,
                      Commit (Some 2) ''Dock'', Commit None ''Dock''] dock_db) \<and>
   stock_for 1 ''Dock'' dock_db =
     [\<lparr>sl_product_id = 1, sl_location = ''Dock'', on_hand = 10, available = 10\<rparr>] \<and>
   stock_for 1 ''Dock'' (snd (commit None ''Dock'' dock_db)) =
     [\<lparr>sl_product_id = 1, sl_location = ''Dock'', on_hand = 5, available = 5\<rparr>] \<and>
   length (stock_for 1 ''Dock'' (snd (commit None ''Dock'' dock_db))) = 1 \<and>
   length (stock_for 2 ''Dock'' (snd (commit None ''Dock'' dock_db))) = 1 \<and>
   stock_levels (snd (commit (Some 4) ''Dock'' dock_db)) = stock_levels dock_db"
proof -
  have u: "stock_unique dock_db"
    by (simp add: stock_unique_def dock_db_def)
  have du: "draft_unique dock_db"
    by (simp add: draft_unique_def dock_db_def)
  have s1: "stock_for 1 ''Dock'' dock_db =
      [\<lparr>sl_product_id = 1, sl_location = ''Dock'', on_hand = 10, available = 10\<rparr>]"
    and s2: "stock_for 2 ''Dock'' dock_db = []"
    by (simp_all add: stock_for_def dock_db_def)
  have sd: "select_drafts ''Dock'' dock_db = [(1, 5), (2, 3)]"
    by (simp add: select_drafts_def dock_db_def)
  have ok: "fst (commit None ''Dock'' dock_db) \<noteq> CommitFailed"
    by (simp add: commit_None)
  have st: "statements ''Dock'' dock_db = 7"
    by (simp add: statements_def select_drafts_def update_stock_def upsert_def insert_stock_def dock_db_def)
  have ko: "fst (commit (Some 4) ''Dock'' dock_db) = CommitFailed"
    by (simp add: commit_thrown st)
  note t = stock_ledger_invariant [of dock_db _ _ "''Dock''" _ "''Dock''"]
  from t [of "[Commit None ''Dock'', Scan None ''B2'' ''Dock'' 7 200,
               Commit (Some 2) ''Dock'', Commit None ''Dock'']" 1 None] u
  have a: "stock_unique (run [Commit None ''Dock'', Scan None ''B2'' ''Dock'' 7 200,
                      Commit (Some 2) ''Dock'', Commit None ''Dock''] dock_db)"
    by blast
  from t [of "[]" 1 None] s1 have b: "length (stock_for 1 ''Dock'' (snd (commit None ''Dock'' dock_db))) = 1"
    by simp
  from t [of "[]" 2 None] s2 sd ok have c: "length (stock_for 2 ''Dock'' (snd (commit None ''Dock'' dock_db))) = 1"
    by simp
  from t [of "[]" 1 None] du ok sd s1
  have e: "stock_for 1 ''Dock'' (snd (commit None ''Dock'' dock_db)) =
     [\<lparr>sl_product_id = 1, sl_location = ''Dock'', on_hand = 5, available = 5\<rparr>]"
    by simp
  from t [of "[]" 1 "Some 4"] ko
  have g: "stock_levels (snd (commit (Some 4) ''Dock'' dock_db)) = stock_levels dock_db"
    by blast
  from u du a s1 e b c g show ?thesis by simp
qed

text \<open>
  C10. A commit for a location without draft rows, be the location in the table of
  locations or not, leaves the database as it is and, unless one of its four statements
  throws, answers with success and the count 0.
\<close>

theorem commit_without_drafts:
  "select_drafts L d = [] \<Longrightarrow>
   commit f L d = (if \<exists>k. f = Some k \<and> k < 4 then CommitFailed else CommitOk 0, d)"
  by (simp add: commit_cases statements_def promote_no_drafts)

theorem commit_without_drafts_witness:
  "''Yard'' \<notin> set (locations dock_db) \<and> select_drafts ''Yard'' dock_db = [] \<and>
   commit None ''Yard'' dock_db = (CommitOk 0, dock_db)"
proof -
  have l: "''Yard'' \<notin> set (locations dock_db)"
    by (simp add: dock_db_def)
  have h: "select_drafts ''Yard'' dock_db = []"
    by (simp add: select_drafts_def dock_db_def)
  from commit_without_drafts [OF h, of None] l h show ?thesis by simp
qed

end
